theory Spec2Isabelle
  imports Main "HOL-Library.Multiset"
begin

section \<open>Text primitives used by \<^verbatim>\<open>utils/changelog/changelog.py\<close>\<close>

text \<open>
  Python strings are modelled as \<^typ>\<open>string\<close>; a \<^typ>\<open>char\<close> stands for a code
  point below 256. The whitespace test is the one shared by \<^verbatim>\<open>str.strip()\<close> and the
  \<^verbatim>\<open>\s\<close> class of \<^verbatim>\<open>re\<close> on that range.
\<close>

definition is_space :: "char \<Rightarrow> bool" where
  "is_space c =
     (let n = (of_char c :: nat)
      in (9 \<le> n \<and> n \<le> 13) \<or> (28 \<le> n \<and> n \<le> 32) \<or> n = 133 \<or> n = 160)"

definition lower_char :: "char \<Rightarrow> char" where
  "lower_char c =
     (let n = (of_char c :: nat)
      in if (65 \<le> n \<and> n \<le> 90) \<or> (192 \<le> n \<and> n \<le> 214) \<or> (216 \<le> n \<and> n \<le> 222)
         then char_of (n + 32) else c)"

definition lower :: "string \<Rightarrow> string" where
  "lower s = map lower_char s"

definition strip :: "string \<Rightarrow> string" where
  "strip s = dropWhile is_space (rev (dropWhile is_space (rev s)))"

text \<open>\<^verbatim>\<open>s.split(sep)\<close> for a one-character separator: always at least one piece.\<close>

fun split_on :: "char \<Rightarrow> string \<Rightarrow> string list" where
  "split_on sep [] = [[]]"
| "split_on sep (c # cs) =
     (if c = sep then [] # split_on sep cs
      else (case split_on sep cs of [] \<Rightarrow> [[c]] | r # rs \<Rightarrow> (c # r) # rs))"

text \<open>\<^verbatim>\<open>sep.join(xs)\<close>.\<close>

fun join :: "string \<Rightarrow> string list \<Rightarrow> string" where
  "join sep [] = []"
| "join sep [x] = x"
| "join sep (x # y # ys) = x @ sep @ join sep (y # ys)"

text \<open>\<^verbatim>\<open>re.sub(r"\s+", " ", ln)\<close>: every maximal run of whitespace becomes one space.\<close>

function collapse_ws :: "string \<Rightarrow> string" where
  "collapse_ws [] = []"
| "collapse_ws (c # cs) =
     (if is_space c then CHR '' '' # collapse_ws (dropWhile is_space cs)
      else c # collapse_ws cs)"
  by pat_completeness auto
termination
  by (relation "measure length") (auto simp: le_imp_less_Suc length_dropWhile_le)

text \<open>
  \<^verbatim>\<open>re.sub(r"^[-*\s]*", "", ln)\<close>: without the MULTILINE flag the anchor holds at
  position 0 only, so the substitution removes the longest leading run of list markers.
\<close>

definition strip_markers :: "string \<Rightarrow> string" where
  "strip_markers ln = dropWhile (\<lambda>c. c = CHR ''-'' \<or> c = CHR ''*'' \<or> is_space c) ln"

subsection \<open>Regular expressions under \<^verbatim>\<open>(?i)\<close>\<close>

datatype regex =
    Nothing
  | Empty
  | Ch char
  | OneOf "char list"
  | Space
  | Then regex regex
  | Or regex regex
  | Many regex

fun nullable :: "regex \<Rightarrow> bool" where
  "nullable Nothing = False"
| "nullable Empty = True"
| "nullable (Ch c) = False"
| "nullable (OneOf cs) = False"
| "nullable Space = False"
| "nullable (Then r s) = (nullable r \<and> nullable s)"
| "nullable (Or r s) = (nullable r \<or> nullable s)"
| "nullable (Many r) = True"

text \<open>The residual of a pattern after reading one character, letters compared without case.\<close>

fun deriv :: "char \<Rightarrow> regex \<Rightarrow> regex" where
  "deriv d Nothing = Nothing"
| "deriv d Empty = Nothing"
| "deriv d (Ch c) = (if lower_char d = lower_char c then Empty else Nothing)"
| "deriv d (OneOf cs) = (if d \<in> set cs then Empty else Nothing)"
| "deriv d Space = (if is_space d then Empty else Nothing)"
| "deriv d (Then r s) =
     (if nullable r then Or (Then (deriv d r) s) (deriv d s) else Then (deriv d r) s)"
| "deriv d (Or r s) = Or (deriv d r) (deriv d s)"
| "deriv d (Many r) = Then (deriv d r) (Many r)"

text \<open>\<^verbatim>\<open>re.match(pattern, s)\<close> as a truth value: some prefix of \<open>s\<close> matches.\<close>

fun re_match :: "regex \<Rightarrow> string \<Rightarrow> bool" where
  "re_match r [] = nullable r"
| "re_match r (c # cs) = (nullable r \<or> re_match (deriv c r) cs)"

fun word :: "string \<Rightarrow> regex" where
  "word [] = Empty"
| "word (c # cs) = Then (Ch c) (word cs)"

text \<open>\<^verbatim>\<open>(?i)^[#>*_ ]*change\s*log\s*category\<close>\<close>

definition category_header :: regex where
  "category_header =
     Then (Many (OneOf ''#>*_ ''))
       (Then (word ''change'') (Then (Many Space)
          (Then (word ''log'') (Then (Many Space) (word ''category'')))))"

text \<open>\<^verbatim>\<open>(?i)^[#>*_ ]*(short\s*description|change\s*log\s*entry)\<close>\<close>

definition entry_header :: regex where
  "entry_header =
     Then (Many (OneOf ''#>*_ ''))
       (Or (Then (word ''short'') (Then (Many Space) (word ''description'')))
           (Then (word ''change'') (Then (Many Space)
              (Then (word ''log'') (Then (Many Space) (word ''entry''))))))"

text \<open>\<^verbatim>\<open>(?i)((non|in|not|un)[-\s]*significant)|(not[ ]*for[ ]*changelog)\<close>\<close>

definition not_for_changelog :: regex where
  "not_for_changelog =
     Or (Then (Or (word ''non'') (Or (word ''in'') (Or (word ''not'') (word ''un''))))
           (Then (Many (Or (OneOf ''-'') Space)) (word ''significant'')))
        (Then (word ''not'') (Then (Many (OneOf '' ''))
           (Then (word ''for'') (Then (Many (OneOf '' '')) (word ''changelog'')))))"

text \<open>\<^verbatim>\<open>(?i)doc\<close>\<close>

definition documentation :: regex where
  "documentation = word ''doc''"

section \<open>Parsing the description of a pull request\<close>

text \<open>
  Lines 258 to 261 of \<^verbatim>\<open>generate_description\<close>: the body (possibly \<^verbatim>\<open>None\<close>) is split at
  newlines, every line is stripped and its inner whitespace collapsed. An empty or absent
  body gives no lines at all.
\<close>

definition body_lines :: "string option \<Rightarrow> string list" where
  "body_lines description =
     (case description of
        None \<Rightarrow> []
      | Some d \<Rightarrow> if d = [] then [] else map (collapse_ws \<circ> strip) (split_on CHR ''\<newline>'' d))"

text \<open>
  The scanning loop of lines 266 to 296. The list argument is \<^verbatim>\<open>lines[i:]\<close>; the other two
  are the current values of \<^verbatim>\<open>category\<close> and \<^verbatim>\<open>entry\<close>. A \<^verbatim>\<open>break\<close> returns them as they are.
\<close>

function scan_lines :: "string list \<Rightarrow> string \<Rightarrow> string \<Rightarrow> string \<times> string" where
  "scan_lines [] category entry = (category, entry)"
| "scan_lines (ln # rest) category entry =
     (if re_match category_header ln then
        (case rest of
           [] \<Rightarrow> (category, entry)
         | l1 # rest1 \<Rightarrow>
             if l1 = [] then
               (case rest1 of
                  [] \<Rightarrow> (category, entry)
                | l2 # rest2 \<Rightarrow> scan_lines rest2 (strip_markers l2) entry)
             else scan_lines rest1 (strip_markers l1) entry)
      else if re_match entry_header ln then
        (let rest' = (case rest of [] \<Rightarrow> [] | l1 # rest1 \<Rightarrow> if l1 = [] then rest1 else rest)
         in scan_lines (dropWhile (\<lambda>l. l \<noteq> []) rest') category
              (join '' '' (takeWhile (\<lambda>l. l \<noteq> []) rest')))
      else scan_lines rest category entry)"
  by pat_completeness auto
termination
  by (relation "measure (\<lambda>(ls, c, e). length ls)")
     (auto simp: le_imp_less_Suc length_dropWhile_le less_Suc_eq_le
           intro: le_trans [OF length_dropWhile_le] split: list.splits)

definition parse_body :: "string option \<Rightarrow> string \<times> string" where
  "parse_body description = scan_lines (body_lines description) [] []"

section \<open>Pull requests, descriptions and the outside world\<close>

text \<open>The fields of a \<^verbatim>\<open>PullRequest\<close> that the script reads.\<close>

record pull_request =
  pr_number :: int
  pr_user :: string
  pr_html_url :: string
  title :: string
  body :: "string option"
  head_ref :: string

text \<open>
  Class \<^verbatim>\<open>Description\<close>. Its \<^verbatim>\<open>__eq__\<close> and \<^verbatim>\<open>__lt__\<close> compare the field
  \<^verbatim>\<open>number\<close> only.
\<close>

record Description =
  number :: int
  user :: string
  html_url :: string
  entry :: string
  category :: string

definition description_eq :: "Description \<Rightarrow> Description \<Rightarrow> bool" where
  "description_eq a b = (number a = number b)"

definition description_lt :: "Description \<Rightarrow> Description \<Rightarrow> bool" where
  "description_lt a b = (number a < number b)"

datatype exn = RateLimitExceededException | IndexError | OtherException string

datatype outcome = Returns pull_request | Raises exn

text \<open>
  What \<^verbatim>\<open>get_pull_cached\<close> touches: the files \<^verbatim>\<open>gh_cache/<number>.pickle\<close> (modification
  time and content), the clock, the remote service and the time spent asleep. Times are
  integers counting microseconds, the resolution of \<^verbatim>\<open>datetime\<close>. The remote service is
  a table: \<open>responses w k n\<close> is the outcome of the \<open>k\<close>-th call of \<^verbatim>\<open>repo.get_pull\<close> made in
  the run when it asks for pull request \<open>n\<close>; \<open>calls\<close> counts the calls made so far.
\<close>

record world =
  cache :: "int \<Rightarrow> (int \<times> pull_request) option"
  now :: int
  responses :: "nat \<Rightarrow> int \<Rightarrow> outcome"
  calls :: nat
  sleeps :: "int list"

definition seconds :: "int \<Rightarrow> int" where
  "seconds n = n * 1000000"

definition hours :: "int \<Rightarrow> int" where
  "hours n = seconds (n * 3600)"

text \<open>\<^verbatim>\<open>sleep_on_rate_limit(time)\<close>: the sleep is recorded and the clock moves on.\<close>

definition sleep_on_rate_limit :: "int \<Rightarrow> world \<Rightarrow> world" where
  "sleep_on_rate_limit time w = w\<lparr>now := now w + seconds time, sleeps := sleeps w @ [time]\<rparr>"

text \<open>
  The loop of lines 146 to 151. Only the rate-limit exception is caught; any other
  exception of \<^verbatim>\<open>repo.get_pull\<close> leaves the function. The loop has no bound, so the model
  is a partial function and \<open>None\<close> stands for a run that never returns.
\<close>

partial_function (option) get_pull_loop ::
    "int \<Rightarrow> world \<Rightarrow> ((exn + pull_request) \<times> world) option" where
  "get_pull_loop n w =
     (case responses w (calls w) n of
        Returns pr \<Rightarrow> Some (Inr pr, w\<lparr>calls := Suc (calls w)\<rparr>)
      | Raises e \<Rightarrow>
          if e = RateLimitExceededException
          then get_pull_loop n (sleep_on_rate_limit 20 (w\<lparr>calls := Suc (calls w)\<rparr>))
          else Some (Inl e, w\<lparr>calls := Suc (calls w)\<rparr>))"

text \<open>Lines 146 to 154: fetch, then write the cache file, whose modification time is the clock.\<close>

definition fetch_and_store :: "world \<Rightarrow> int \<Rightarrow> ((exn + pull_request) \<times> world) option" where
  "fetch_and_store w n =
     (case get_pull_loop n w of
        None \<Rightarrow> None
      | Some (Inl e, w') \<Rightarrow> Some (Inl e, w')
      | Some (Inr pr, w') \<Rightarrow> Some (Inr pr, w'\<lparr>cache := (cache w')(n \<mapsto> (now w', pr))\<rparr>))"

definition get_pull_cached ::
    "world \<Rightarrow> int \<Rightarrow> int option \<Rightarrow> ((exn + pull_request) \<times> world) option" where
  "get_pull_cached w n updated_at =
     (let updated_at' = (case updated_at of None \<Rightarrow> now w - hours (- 1) | Some u \<Rightarrow> u)
      in case cache w n of
           None \<Rightarrow> fetch_and_store w n
         | Some (cache_updated, pr) \<Rightarrow>
             if cache_updated > updated_at' then Some (Inr pr, w) else fetch_and_store w n)"

section \<open>Aggregation: \<^verbatim>\<open>get_descriptions\<close>\<close>

text \<open>
  Lines 169 to 180, after the workers have been joined: \<open>responses\<close> of worker after worker
  is appended to the list of its category, then every list is sorted with \<^verbatim>\<open>list.sort()\<close>,
  a stable sort driven by \<^verbatim>\<open>__lt__\<close>.
\<close>

definition add_description ::
    "(string \<Rightarrow> Description list option) \<Rightarrow> Description \<Rightarrow> (string \<Rightarrow> Description list option)" where
  "add_description descriptions desc =
     descriptions(category desc \<mapsto>
       (case descriptions (category desc) of None \<Rightarrow> [] | Some ds \<Rightarrow> ds) @ [desc])"

definition get_descriptions :: "Description list list \<Rightarrow> (string \<Rightarrow> Description list option)" where
  "get_descriptions worker_responses =
     (\<lambda>c. map_option (sort_key number)
             (foldl (foldl add_description) Map.empty worker_responses c))"

section \<open>Classification: \<^verbatim>\<open>generate_description\<close>\<close>

definition categories_preferred_order :: "string list" where
  "categories_preferred_order =
     [''Backward Incompatible Change'', ''New Feature'', ''Performance Improvement'',
      ''Improvement'', ''Bug Fix'', ''Build/Testing/Packaging Improvement'', ''Other'']"

text \<open>
  Lines 330 to 333. \<^verbatim>\<open>ratio\<close> comes from the package fuzzywuzzy and is a parameter here.
\<close>

fun normalize_category :: "(string \<Rightarrow> string \<Rightarrow> int) \<Rightarrow> string list \<Rightarrow> string \<Rightarrow> string" where
  "normalize_category ratio [] cat = cat"
| "normalize_category ratio (c # cs) cat =
     (if ratio (lower cat) (lower c) \<ge> 90 then c
      else normalize_category ratio cs cat)"

definition startswith :: "string \<Rightarrow> string \<Rightarrow> bool" where
  "startswith s p = (take (length p) s = p)"

definition is_digit :: "char \<Rightarrow> bool" where
  "is_digit c = (48 \<le> (of_char c :: nat) \<and> (of_char c :: nat) \<le> 57)"

text \<open>
  \<^verbatim>\<open>int(s)\<close> on decimal text: surrounding whitespace, one sign, digits in groups
  separated by single underscores. \<open>None\<close> stands for \<^verbatim>\<open>ValueError\<close>. The whitespace
  that \<^verbatim>\<open>int\<close> removes is narrower than that of \<^verbatim>\<open>str.strip()\<close>: the ASCII
  blanks 9 to 13 and 32, and the two blanks above 127, which \<^verbatim>\<open>int\<close> turns into spaces
  first; the separators 28 to 31 are not removed and make the text invalid. The limit on
  the number of digits that recent interpreters impose is not part of the model.
\<close>

definition is_int_space :: "char \<Rightarrow> bool" where
  "is_int_space c =
     (let n = (of_char c :: nat)
      in (9 \<le> n \<and> n \<le> 13) \<or> n = 32 \<or> n = 133 \<or> n = 160)"

definition py_int :: "string \<Rightarrow> int option" where
  "py_int s =
     (let t = dropWhile is_int_space (rev (dropWhile is_int_space (rev s)));
          neg = (take 1 t = ''-'');
          u = (if take 1 t = ''-'' \<or> take 1 t = ''+'' then drop 1 t else t);
          groups = split_on (CHR ''_'') u
      in if list_all (\<lambda>g. g \<noteq> [] \<and> list_all is_digit g) groups
         then Some ((if neg then - 1 else 1) *
                    int (foldl (\<lambda>acc c. 10 * acc + (of_char c - 48)) 0 (concat groups)))
         else None)"

function str_nat :: "nat \<Rightarrow> string" where
  "str_nat n = (if n < 10 then [char_of (48 + n)] else str_nat (n div 10) @ [char_of (48 + n mod 10)])"
  by pat_completeness auto
termination
  by (relation "measure id") auto

definition str_int :: "int \<Rightarrow> string" where
  "str_int i = (if i < 0 then CHR ''-'' # str_nat (nat (- i)) else str_nat (nat i))"

text \<open>
  Lines 244 to 257: a pull request from a branch \<^verbatim>\<open>backport/<base>/<number>\<close> is replaced
  by the pull request of that number. \<^verbatim>\<open>except Exception\<close> keeps the item on any failure.
\<close>

definition resolve_backport :: "world \<Rightarrow> pull_request \<Rightarrow> (pull_request \<times> world) option" where
  "resolve_backport w item =
     (if startswith (head_ref item) ''backport/'' then
        (let branch_parts = split_on (CHR ''/'') (head_ref item)
         in if length branch_parts = 3 then
              (case py_int (last branch_parts) of
                 None \<Rightarrow> Some (item, w)
               | Some n \<Rightarrow>
                   (case get_pull_cached w n None of
                      None \<Rightarrow> None
                    | Some (Inl e, w') \<Rightarrow> Some (item, w')
                    | Some (Inr pr, w') \<Rightarrow> Some (pr, w')))
            else Some (item, w))
      else Some (item, w))"

text \<open>
  Lines 258 to 335, on the item chosen above. \<^verbatim>\<open>entry[-1]\<close> on an empty string raises
  \<^verbatim>\<open>IndexError\<close>; \<open>Inr None\<close> is the \<^verbatim>\<open>return None\<close> of documentation changes.
\<close>

definition classify_item ::
    "(string \<Rightarrow> string \<Rightarrow> int) \<Rightarrow> int \<Rightarrow> pull_request \<Rightarrow> exn + Description option" where
  "classify_item ratio backport_number item =
     (let (category0, entry0) = parse_body (body item);
          category1 = (if category0 = [] then ''NO CL CATEGORY'' else category0)
      in if re_match not_for_changelog category1 then
           Inr (Some \<lparr>number = pr_number item, user = pr_user item, html_url = pr_html_url item,
                      entry = title item, category = ''NOT FOR CHANGELOG / INSIGNIFICANT''\<rparr>)
         else if re_match documentation category1 then Inr None
         else
           (let entry1 = (if backport_number \<noteq> pr_number item
                          then ''Backported in #'' @ str_int backport_number @ '': '' @ entry0
                          else entry0);
                category2 = (if entry1 = [] then ''NO CL ENTRY'' else category1);
                entry2 = (if entry1 = [] then ''NO CL ENTRY:  '' @ [CHR 0x27] @ title item @ [CHR 0x27]
                          else entry1);
                entry3 = strip entry2
            in if entry3 = [] then Inl IndexError
               else
                 (let entry4 = (if last entry3 \<noteq> CHR ''.'' then entry3 @ ''.'' else entry3)
                  in Inr (Some \<lparr>number = pr_number item, user = pr_user item,
                                 html_url = pr_html_url item, entry = entry4,
                                 category = normalize_category ratio categories_preferred_order
                                              category2\<rparr>))))"

definition generate_description ::
    "(string \<Rightarrow> string \<Rightarrow> int) \<Rightarrow> world \<Rightarrow> pull_request
       \<Rightarrow> ((exn + Description option) \<times> world) option" where
  "generate_description ratio w item =
     (case resolve_backport w item of
        None \<Rightarrow> None
      | Some (item', w') \<Rightarrow> Some (classify_item ratio (pr_number item) item', w'))"

section \<open>Bodies made of blocks\<close>

text \<open>
  The shape of a description, used to state what the scan extracts. The lines of every
  body fall into blocks: a category block is a header line, at most one blank line and the
  line taken as the category; a category header that ends the body, alone or with a blank
  line, captures nothing; an entry block is a header line, at most one blank line and
  the entry lines, none of them blank; any other line stands alone.
  A sequence of blocks is well-formed when it is what the lines say: a header line is one
  that matches its pattern (the category pattern is tried first), the line after a
  category header counts as the category only if it is not the blank line that may
  precede it, and an entry block ends where the next line is blank or the body ends.
  \<open>capture\<close> is what the specification says a block contributes.
\<close>

datatype block =
    CategoryBlock string bool string
  | DanglingCategory string bool
  | EntryBlock string bool "string list"
  | OtherLine string

fun block_lines :: "block \<Rightarrow> string list" where
  "block_lines (CategoryBlock hdr gap ln) = hdr # (if gap then [[]] else []) @ [ln]"
| "block_lines (DanglingCategory hdr gap) = hdr # (if gap then [[]] else [])"
| "block_lines (EntryBlock hdr gap lns) = hdr # (if gap then [[]] else []) @ lns"
| "block_lines (OtherLine ln) = [ln]"

definition lines_of :: "block list \<Rightarrow> string list" where
  "lines_of bs = concat (map block_lines bs)"

fun well_formed :: "block list \<Rightarrow> bool" where
  "well_formed [] = True"
| "well_formed (CategoryBlock hdr gap ln # bs) =
     (re_match category_header hdr \<and> (gap \<or> ln \<noteq> []) \<and> well_formed bs)"
| "well_formed (DanglingCategory hdr gap # bs) =
     (re_match category_header hdr \<and> bs = [])"
| "well_formed (EntryBlock hdr gap lns # bs) =
     (\<not> re_match category_header hdr \<and> re_match entry_header hdr \<and> [] \<notin> set lns \<and>
      (lines_of bs = [] \<or> hd (lines_of bs) = []) \<and>
      (gap \<or> lns \<noteq> [] \<or> lines_of bs = []) \<and> well_formed bs)"
| "well_formed (OtherLine ln # bs) =
     (\<not> re_match category_header ln \<and> \<not> re_match entry_header ln \<and> well_formed bs)"

fun capture :: "string \<times> string \<Rightarrow> block \<Rightarrow> string \<times> string" where
  "capture (c, e) (CategoryBlock hdr gap ln) = (strip_markers ln, e)"
| "capture (c, e) (DanglingCategory hdr gap) = (c, e)"
| "capture (c, e) (EntryBlock hdr gap lns) = (c, join '' '' lns)"
| "capture (c, e) (OtherLine ln) = (c, e)"

fun is_category_block :: "block \<Rightarrow> bool" where
  "is_category_block (CategoryBlock hdr gap ln) = True"
| "is_category_block b = False"

fun is_entry_block :: "block \<Rightarrow> bool" where
  "is_entry_block (EntryBlock hdr gap lns) = True"
| "is_entry_block b = False"

section \<open>Concrete inputs\<close>

definition exact_ratio :: "string \<Rightarrow> string \<Rightarrow> int" where
  "exact_ratio a b = (if a = b then 100 else 0)"

definition fresh_pr :: pull_request where
  "fresh_pr = \<lparr>pr_number = 7, pr_user = ''alice'', pr_html_url = ''https://example.org/pull/7'',
                title = ''Fix crash on empty input'', body = None, head_ref = ''fix-crash''\<rparr>"

definition stale_pr :: pull_request where
  "stale_pr = fresh_pr\<lparr>title := ''WIP''\<rparr>"

definition busy_remote :: "nat \<Rightarrow> int \<Rightarrow> outcome" where
  "busy_remote k n = (if k < 2 then Raises RateLimitExceededException else Returns fresh_pr)"

definition example_world :: world where
  "example_world = \<lparr>cache = [7 \<mapsto> (100, stale_pr)], now = 500, responses = busy_remote,
                      calls = 0, sleeps = []\<rparr>"

definition future_world :: world where
  "future_world = example_world\<lparr>cache := [7 \<mapsto> (7200000500, stale_pr)]\<rparr>"

definition desc_500 :: Description where
  "desc_500 = \<lparr>number = 500, user = ''alice'', html_url = ''https://example.org/pull/500'',
                entry = ''Fix a crash.'', category = ''Bug Fix''\<rparr>"

definition desc_100 :: Description where
  "desc_100 = \<lparr>number = 100, user = ''bob'', html_url = ''https://example.org/pull/100'',
                entry = ''Fix a leak.'', category = ''Bug Fix''\<rparr>"

definition desc_100_again :: Description where
  "desc_100_again = desc_100\<lparr>entry := ''Backported in #100: Fix a leak.''\<rparr>"

definition backport_pr :: pull_request where
  "backport_pr = \<lparr>pr_number = 9, pr_user = ''robot'', pr_html_url = ''https://example.org/pull/9'',
                   title = ''Backport #7 to 23.8'', body = None, head_ref = ''backport/23.8/7''\<rparr>"

definition quiet_pr :: pull_request where
  "quiet_pr = \<lparr>pr_number = 7, pr_user = ''alice'', pr_html_url = ''https://example.org/pull/7'',
                title = ''Refactor tests'',
                body = Some ''### Changelog category:\<newline>- Not for changelog\<newline>\<newline>### Changelog entry:\<newline>Tests were refactored'',
                head_ref = ''refactor-tests''\<rparr>"

definition loud_pr :: pull_request where
  "loud_pr = \<lparr>pr_number = 7, pr_user = ''alice'', pr_html_url = ''https://example.org/pull/7'',
               title = ''Fix crash'',
               body = Some ''Changelog category:\<newline>BUG fix\<newline>\<newline>Changelog entry:\<newline>Fixed a crash'',
               head_ref = ''fix-crash''\<rparr>"

definition misc_pr :: pull_request where
  "misc_pr = loud_pr\<lparr>body := Some ''Changelog category:\<newline>Misc\<newline>\<newline>Changelog entry:\<newline>Fixed a crash''\<rparr>"

definition terse_pr :: pull_request where
  "terse_pr = loud_pr\<lparr>body := Some ''Changelog category:\<newline>BUG fix''\<rparr>"

definition empty_pr :: pull_request where
  "empty_pr = \<lparr>pr_number = 7, pr_user = ''alice'', pr_html_url = ''https://example.org/pull/7'',
                title = ''Fix.'', body = None, head_ref = ''fix''\<rparr>"

text \<open>
  A description written on Windows, with a paragraph of two lines, a tab and doubled
  spaces, and the same description with the two blocks exchanged.
\<close>

definition crlf :: string where
  "crlf = [CHR 0x0D, CHR ''\<newline>'']"

definition windows_body :: string where
  "windows_body = join crlf
     [''This change fixes a crash.'', ''See the issue.'', [],
      ''### Changelog category (leave one):'', ''- Bug Fix'', [],
      ''### Changelog entry:'', [], ''Fixed  a'' @ [CHR 0x09] @ ''crash'', ''in the parser'', []]"

definition windows_body_swapped :: string where
  "windows_body_swapped = join crlf
     [''This change fixes a crash.'', ''See the issue.'', [],
      ''### Changelog entry:'', [], ''Fixed  a'' @ [CHR 0x09] @ ''crash'', ''in the parser'', [],
      ''### Changelog category (leave one):'', ''- Bug Fix'', []]"

definition intro_lines :: "block list" where
  "intro_lines = [OtherLine ''This change fixes a crash.'', OtherLine ''See the issue.'', OtherLine []]"

text \<open>A description with each header twice, the second category header after a blank line.\<close>

definition repeated_body :: string where
  "repeated_body = join crlf
     [''### Changelog category:'', ''- Bug Fix'', ''### Changelog entry:'', ''Fixed a crash'', [],
      ''Changelog category:'', [], ''Improvement'', ''Short description:'', ''Faster parser'']"

definition repeated_blocks :: "block list" where
  "repeated_blocks =
     [CategoryBlock ''### Changelog category:'' False ''- Bug Fix'',
      EntryBlock ''### Changelog entry:'' False [''Fixed a crash''],
      OtherLine [],
      CategoryBlock ''Changelog category:'' True ''Improvement'',
      EntryBlock ''Short description:'' False [''Faster parser'']]"

section \<open>Category normalization\<close>

lemma normalize_category_find:
  "normalize_category ratio cs s =
     (case List.find (\<lambda>c. 90 \<le> ratio (lower s) (lower c)) cs of None \<Rightarrow> s | Some c \<Rightarrow> c)"
  by (induction cs) auto

lemma normalize_category_first:
  "((\<exists>C \<in> set categories_preferred_order. 90 \<le> ratio (lower s) (lower C)) \<longrightarrow>
      (\<exists>i < length categories_preferred_order.
          normalize_category ratio categories_preferred_order s = categories_preferred_order ! i \<and>
          90 \<le> ratio (lower s) (lower (categories_preferred_order ! i)) \<and>
          (\<forall>j < i. ratio (lower s) (lower (categories_preferred_order ! j)) < 90))) \<and>
   ((\<forall>C \<in> set categories_preferred_order. ratio (lower s) (lower C) < 90) \<longrightarrow>
      normalize_category ratio categories_preferred_order s = s)"
proof (intro conjI impI)
  let ?P = "\<lambda>c. 90 \<le> ratio (lower s) (lower c)"
  let ?cs = categories_preferred_order
  assume "\<exists>C \<in> set ?cs. 90 \<le> ratio (lower s) (lower C)"
  then obtain c where c: "List.find ?P ?cs = Some c"
    by (cases "List.find ?P ?cs") (auto simp: find_None_iff)
  then obtain i where i: "i < length ?cs" "?P (?cs ! i)" "c = ?cs ! i" "\<forall>j<i. \<not> ?P (?cs ! j)"
    unfolding find_Some_iff by blast
  have "normalize_category ratio ?cs s = c"
    by (simp add: normalize_category_find c)
  with i show "\<exists>i < length ?cs. normalize_category ratio ?cs s = ?cs ! i \<and>
          90 \<le> ratio (lower s) (lower (?cs ! i)) \<and> (\<forall>j < i. ratio (lower s) (lower (?cs ! j)) < 90)"
    by (auto simp: not_le)
next
  assume "\<forall>C \<in> set categories_preferred_order. ratio (lower s) (lower C) < 90"
  then have "List.find (\<lambda>c. 90 \<le> ratio (lower s) (lower c)) categories_preferred_order = None"
    by (auto simp: find_None_iff)
  then show "normalize_category ratio categories_preferred_order s = s"
    by (simp add: normalize_category_find)
qed

section \<open>Buckets of \<^verbatim>\<open>get_descriptions\<close>\<close>

lemma foldl_add_description:
  "foldl add_description m ds c =
     (if filter (\<lambda>d. category d = c) ds = [] then m c
      else Some ((case m c of None \<Rightarrow> [] | Some xs \<Rightarrow> xs) @ filter (\<lambda>d. category d = c) ds))"
  by (induction ds arbitrary: m) (auto simp: add_description_def split: option.splits)

lemma foldl_foldl_concat: "foldl (foldl f) m xss = foldl f m (concat xss)"
  by (induction xss arbitrary: m) auto

lemma get_descriptions_bucket:
  "get_descriptions rs c =
     (if filter (\<lambda>d. category d = c) (concat rs) = [] then None
      else Some (sort_key number (filter (\<lambda>d. category d = c) (concat rs))))"
  by (simp add: get_descriptions_def foldl_foldl_concat foldl_add_description)

text \<open>
  Claim C2, as the code has it. Every bucket is sorted ascending by \<^verbatim>\<open>number\<close> and holds
  exactly the descriptions of its category, each as often as the workers produced it:
  nothing is collapsed. A bucket is free of repeated numbers when the input is.
\<close>

theorem get_descriptions_sorted:
  assumes "get_descriptions worker_responses c = Some bucket"
  shows "sorted (map number bucket) \<and>
         mset bucket = filter_mset (\<lambda>d. category d = c) (mset (concat worker_responses)) \<and>
         (distinct (map number (concat worker_responses)) \<longrightarrow> distinct (map number bucket))"
proof -
  let ?xs = "filter (\<lambda>d. category d = c) (concat worker_responses)"
  from assms have b: "bucket = sort_key number ?xs"
    by (simp add: get_descriptions_bucket split: if_splits)
  have "mset (map number bucket) = mset (map number ?xs)"
    unfolding b by simp
  then have "distinct (map number bucket) = distinct (map number ?xs)"
    by (rule mset_eq_imp_distinct_iff)
  moreover have "distinct (map number (concat worker_responses)) \<Longrightarrow> distinct (map number ?xs)"
    by (rule distinct_map_filter)
  ultimately show ?thesis
    unfolding b by simp
qed

theorem get_descriptions_sorted_witness:
  "get_descriptions [[desc_500], [desc_100]] ''Bug Fix'' = Some [desc_100, desc_500] \<and>
   sorted (map number [desc_100, desc_500]) \<and>
   mset [desc_100, desc_500] =
     filter_mset (\<lambda>d. category d = ''Bug Fix'') (mset (concat [[desc_500], [desc_100]])) \<and>
   distinct (map number (concat [[desc_500], [desc_100]])) \<and>
   distinct (map number [desc_100, desc_500])"
proof -
  have b: "get_descriptions [[desc_500], [desc_100]] ''Bug Fix'' = Some [desc_100, desc_500]"
    by code_simp
  have d: "distinct (map number (concat [[desc_500], [desc_100]]))"
    by (simp add: desc_500_def desc_100_def)
  from b d get_descriptions_sorted [OF b] show ?thesis
    by blast
qed

text \<open>
  Two descriptions with the number 100 stay side by side in the bucket: the claim that
  duplicates are collapsed fails.
\<close>

theorem get_descriptions_keeps_duplicates:
  "get_descriptions [[desc_500, desc_100], [desc_100_again]] ''Bug Fix'' =
     Some [desc_100, desc_100_again, desc_500] \<and>
   number desc_100 = number desc_100_again \<and>
   \<not> distinct (map number [desc_100, desc_100_again, desc_500])"
  by code_simp

section \<open>The cache and the rate limit: \<^verbatim>\<open>get_pull_cached\<close>\<close>

lemma get_pull_loop_result:
  "get_pull_loop n w = Some y \<Longrightarrow>
     fst y \<noteq> Inl RateLimitExceededException \<and> calls w < calls (snd y) \<and> cache (snd y) = cache w"
proof (induction rule: get_pull_loop.raw_induct[rotated 1, consumes 1])
  case (1 loop n w y)
  show ?case
  proof (cases "responses w (calls w) n")
    case (Returns pr)
    with 1(2) show ?thesis by auto
  next
    case (Raises e)
    show ?thesis
    proof (cases "e = RateLimitExceededException")
      case True
      with Raises 1(2)
      have "loop n (sleep_on_rate_limit 20 (w\<lparr>calls := Suc (calls w)\<rparr>)) = Some y"
        by simp
      from 1(1)[OF this] show ?thesis
        by (simp add: sleep_on_rate_limit_def)
    next
      case False
      with Raises 1(2) show ?thesis by auto
    qed
  qed
qed

lemma get_pull_loop_retries:
  "(\<forall>j<k. responses w (calls w + j) n = Raises RateLimitExceededException) \<Longrightarrow>
   responses w (calls w + k) n = Returns pr \<Longrightarrow>
   get_pull_loop n w =
     Some (Inr pr, w\<lparr>now := now w + seconds 20 * int k, calls := calls w + k + 1,
                     sleeps := sleeps w @ replicate k 20\<rparr>)"
proof (induction k arbitrary: w)
  case 0
  then show ?case by (subst get_pull_loop.simps) simp
next
  case (Suc k)
  let ?w1 = "sleep_on_rate_limit 20 (w\<lparr>calls := Suc (calls w)\<rparr>)"
  from Suc.prems(1) have first: "responses w (calls w) n = Raises RateLimitExceededException"
    by (metis add.right_neutral zero_less_Suc)
  have r: "responses ?w1 = responses w" and c: "calls ?w1 = Suc (calls w)"
    by (simp_all add: sleep_on_rate_limit_def)
  have "\<forall>j<k. responses ?w1 (calls ?w1 + j) n = Raises RateLimitExceededException"
    using Suc.prems(1) by (auto simp: r c)
  moreover have "responses ?w1 (calls ?w1 + k) n = Returns pr"
    using Suc.prems(2) by (simp add: r c)
  ultimately have ih: "get_pull_loop n ?w1 =
     Some (Inr pr, ?w1\<lparr>now := now ?w1 + seconds 20 * int k, calls := calls ?w1 + k + 1,
                     sleeps := sleeps ?w1 @ replicate k 20\<rparr>)"
    by (rule Suc.IH)
  have "get_pull_loop n w = get_pull_loop n ?w1"
    by (subst get_pull_loop.simps) (simp add: first)
  also note ih
  also have "?w1\<lparr>now := now ?w1 + seconds 20 * int k, calls := calls ?w1 + k + 1,
                     sleeps := sleeps ?w1 @ replicate k 20\<rparr> =
      w\<lparr>now := now w + seconds 20 * int (Suc k), calls := calls w + Suc k + 1,
                     sleeps := sleeps w @ replicate (Suc k) 20\<rparr>"
    by (simp add: sleep_on_rate_limit_def seconds_def algebra_simps)
  finally show ?case .
qed

lemma fetch_and_store_retries:
  assumes "\<forall>j<k. responses w (calls w + j) n = Raises RateLimitExceededException"
    and "responses w (calls w + k) n = Returns pr"
  shows "fetch_and_store w n =
     Some (Inr pr, w\<lparr>cache := (cache w)(n \<mapsto> (now w + seconds 20 * int k, pr)),
                     now := now w + seconds 20 * int k, calls := calls w + k + 1,
                     sleeps := sleeps w @ replicate k 20\<rparr>)"
  by (simp add: fetch_and_store_def get_pull_loop_retries [OF assms])

lemma fetch_and_store_result:
  assumes "fetch_and_store w n = Some (r, w')"
  shows "r \<noteq> Inl RateLimitExceededException" and "calls w < calls w'"
    and "\<And>pr. r = Inr pr \<Longrightarrow> cache w' n = Some (now w', pr)"
proof -
  from assms obtain y where y: "get_pull_loop n w = Some y"
    by (auto simp: fetch_and_store_def split: option.splits)
  note res = get_pull_loop_result [OF y]
  from assms y res show "r \<noteq> Inl RateLimitExceededException"
    by (cases y; cases "fst y") (auto simp: fetch_and_store_def)
  from assms y res show "calls w < calls w'"
    by (cases y; cases "fst y") (auto simp: fetch_and_store_def)
  fix pr assume "r = Inr pr"
  with assms y show "cache w' n = Some (now w', pr)"
    by (cases y; cases "fst y") (auto simp: fetch_and_store_def)
qed

lemma get_pull_cached_stale:
  "cache w n = None \<or> (\<exists>t p. cache w n = Some (t, p) \<and> t \<le> u) \<Longrightarrow>
   get_pull_cached w n (Some u) = fetch_and_store w n"
  by (auto simp: get_pull_cached_def)

lemma default_timestamp_one_hour_ahead:
  "get_pull_cached w n None = get_pull_cached w n (Some (now w + seconds 3600))"
  by (simp add: get_pull_cached_def hours_def seconds_def)

text \<open>
  Claim C5, as the code has it. A cache file whose modification time is strictly later
  than the last known update is returned as it is, with no remote call and no change of
  state. On a miss, or when the file is not strictly later (equal times included), every
  successful return comes from a remote call and the cache file of that number then holds
  the returned snapshot; when the remote answers after \<open>k\<close> rate-limit errors the call does
  return so.
\<close>

theorem get_pull_cached_freshness:
  "(cache w n = Some (t, p) \<and> u < t \<longrightarrow> get_pull_cached w n (Some u) = Some (Inr p, w)) \<and>
   (cache w n = None \<or> (\<exists>t p. cache w n = Some (t, p) \<and> t \<le> u') \<longrightarrow>
      (\<forall>pr w'. get_pull_cached w n (Some u') = Some (Inr pr, w') \<longrightarrow>
          calls w < calls w' \<and> cache w' n = Some (now w', pr)) \<and>
      ((\<forall>j<k. responses w (calls w + j) n = Raises RateLimitExceededException) \<and>
       responses w (calls w + k) n = Returns pr' \<longrightarrow>
         (\<exists>w'. get_pull_cached w n (Some u') = Some (Inr pr', w') \<and>
               calls w' = calls w + k + 1 \<and> cache w' n = Some (now w', pr'))))"
proof (intro conjI impI allI)
  assume "cache w n = Some (t, p) \<and> u < t"
  then show "get_pull_cached w n (Some u) = Some (Inr p, w)"
    by (simp add: get_pull_cached_def)
next
  fix pr w'
  assume "cache w n = None \<or> (\<exists>t p. cache w n = Some (t, p) \<and> t \<le> u')"
    and "get_pull_cached w n (Some u') = Some (Inr pr, w')"
  then have f: "fetch_and_store w n = Some (Inr pr, w')"
    by (simp add: get_pull_cached_stale)
  from fetch_and_store_result(2) [OF f] show "calls w < calls w'" .
  from fetch_and_store_result(3) [OF f] show "cache w' n = Some (now w', pr)" by simp
next
  assume stale: "cache w n = None \<or> (\<exists>t p. cache w n = Some (t, p) \<and> t \<le> u')"
    and "(\<forall>j<k. responses w (calls w + j) n = Raises RateLimitExceededException) \<and>
       responses w (calls w + k) n = Returns pr'"
  then have "fetch_and_store w n =
     Some (Inr pr', w\<lparr>cache := (cache w)(n \<mapsto> (now w + seconds 20 * int k, pr')),
                     now := now w + seconds 20 * int k, calls := calls w + k + 1,
                     sleeps := sleeps w @ replicate k 20\<rparr>)"
    by (intro fetch_and_store_retries) auto
  with stale show "\<exists>w'. get_pull_cached w n (Some u') = Some (Inr pr', w') \<and>
               calls w' = calls w + k + 1 \<and> cache w' n = Some (now w', pr')"
    by (simp add: get_pull_cached_stale)
qed

lemma example_world_cache: "cache example_world 7 = Some (100, stale_pr)"
  by (simp add: example_world_def)

lemma example_world_busy:
  "(\<forall>j<2. responses example_world (calls example_world + j) 7 = Raises RateLimitExceededException) \<and>
   responses example_world (calls example_world + 2) 7 = Returns fresh_pr"
  by (simp add: example_world_def busy_remote_def)

theorem get_pull_cached_freshness_witness:
  "get_pull_cached example_world 7 (Some 50) = Some (Inr stale_pr, example_world) \<and>
   (\<exists>w'. get_pull_cached example_world 7 (Some 100) = Some (Inr fresh_pr, w') \<and>
         calls w' = 3 \<and> cache w' 7 = Some (now w', fresh_pr))"
proof -
  note inst = get_pull_cached_freshness [of example_world 7 100 stale_pr 50 100 2 fresh_pr]
  have hit: "cache example_world 7 = Some (100, stale_pr) \<and> (50::int) < 100"
    by (simp add: example_world_cache)
  have stale: "cache example_world 7 = None \<or>
      (\<exists>t p. cache example_world 7 = Some (t, p) \<and> t \<le> 100)"
    by (simp add: example_world_cache)
  from inst hit have "get_pull_cached example_world 7 (Some 50) = Some (Inr stale_pr, example_world)"
    by blast
  moreover from inst stale example_world_busy
  have "\<exists>w'. get_pull_cached example_world 7 (Some 100) = Some (Inr fresh_pr, w') \<and>
         calls w' = calls example_world + 2 + 1 \<and> cache w' 7 = Some (now w', fresh_pr)"
    by blast
  moreover have "calls example_world = 0"
    by (simp add: example_world_def)
  ultimately show ?thesis
    by (simp add: numeral_3_eq_3)
qed

text \<open>
  A cache file written at time 100 and a last known update of 100: the claim returns the
  cached snapshot, the code asks the remote service three times and returns its answer.
\<close>

theorem get_pull_cached_equal_timestamp_refetches:
  "cache example_world 7 = Some (100, stale_pr) \<and>
   map_option fst (get_pull_cached example_world 7 (Some 100)) = Some (Inr fresh_pr) \<and>
   map_option fst (get_pull_cached example_world 7 (Some 100)) \<noteq> Some (Inr stale_pr) \<and>
   calls example_world = 0 \<and>
   map_option (calls \<circ> snd) (get_pull_cached example_world 7 (Some 100)) = Some 3"
proof -
  have "get_pull_cached example_world 7 (Some 100) = fetch_and_store example_world 7"
    by (rule get_pull_cached_stale) (simp add: example_world_cache)
  also have "\<dots> = Some (Inr fresh_pr,
      example_world\<lparr>cache := (cache example_world)(7 \<mapsto> (now example_world + seconds 20 * int 2, fresh_pr)),
                     now := now example_world + seconds 20 * int 2,
                     calls := calls example_world + 2 + 1,
                     sleeps := sleeps example_world @ replicate 2 20\<rparr>)"
    using example_world_busy by (intro fetch_and_store_retries) auto
  finally have "get_pull_cached example_world 7 (Some 100) = Some (Inr fresh_pr,
      example_world\<lparr>cache := (cache example_world)(7 \<mapsto> (now example_world + seconds 20 * int 2, fresh_pr)),
                     now := now example_world + seconds 20 * int 2,
                     calls := calls example_world + 2 + 1,
                     sleeps := sleeps example_world @ replicate 2 20\<rparr>)" .
  moreover have "fresh_pr \<noteq> stale_pr"
    by (simp add: fresh_pr_def stale_pr_def)
  ultimately show ?thesis
    by (simp add: example_world_cache) (simp add: example_world_def)
qed


lemma get_pull_cached_fetches:
  "cache w n = None \<or>
     (\<exists>t p. cache w n = Some (t, p) \<and>
        t \<le> (case updated_at of None \<Rightarrow> now w - hours (- 1) | Some u \<Rightarrow> u)) \<Longrightarrow>
   get_pull_cached w n updated_at = fetch_and_store w n"
  by (auto simp: get_pull_cached_def)



text \<open>
  Claim C9. Without a timestamp the threshold is the clock plus one hour, exactly: the
  call behaves as the call with that timestamp, a cache file dated more than one hour
  ahead is returned as it is, and a cache file dated at most one hour ahead (so every
  file that is not from the future) is never returned: every return has made a remote
  call, and when the service answers after \<open>k\<close> rate-limit errors the snapshot returned is
  the one of the service. The same holds for the re-fetch of the original of a backport.
\<close>

theorem get_pull_cached_default_refetches:
  "get_pull_cached w n None = get_pull_cached w n (Some (now w + seconds 3600)) \<and>
   (cache w1 n1 = Some (t1, p1) \<and> now w1 + seconds 3600 < t1 \<longrightarrow>
      get_pull_cached w1 n1 None = Some (Inr p1, w1)) \<and>
   (cache w n = Some (t, p) \<and> t \<le> now w + seconds 3600 \<longrightarrow>
      (\<forall>r w'. get_pull_cached w n None = Some (r, w') \<longrightarrow> calls w < calls w') \<and>
      ((\<forall>j<k. responses w (calls w + j) n = Raises RateLimitExceededException) \<and>
       responses w (calls w + k) n = Returns pr \<longrightarrow>
         get_pull_cached w n None =
           Some (Inr pr, w\<lparr>cache := (cache w)(n \<mapsto> (now w + seconds 20 * int k, pr)),
                           now := now w + seconds 20 * int k, calls := calls w + k + 1,
                           sleeps := sleeps w @ replicate k 20\<rparr>) \<and>
         (startswith (head_ref item) ''backport/'' \<and>
          split_on (CHR ''/'') (head_ref item) = [a, b, c] \<and> py_int c = Some n \<longrightarrow>
            resolve_backport w item =
              Some (pr, w\<lparr>cache := (cache w)(n \<mapsto> (now w + seconds 20 * int k, pr)),
                          now := now w + seconds 20 * int k, calls := calls w + k + 1,
                          sleeps := sleeps w @ replicate k 20\<rparr>))))"
proof (intro conjI impI)
  show "get_pull_cached w n None = get_pull_cached w n (Some (now w + seconds 3600))"
    by (rule default_timestamp_one_hour_ahead)
next
  assume "cache w1 n1 = Some (t1, p1) \<and> now w1 + seconds 3600 < t1"
  then show "get_pull_cached w1 n1 None = Some (Inr p1, w1)"
    by (simp add: get_pull_cached_def hours_def seconds_def)
next
  assume old: "cache w n = Some (t, p) \<and> t \<le> now w + seconds 3600"
  then have f: "get_pull_cached w n None = fetch_and_store w n"
    by (intro get_pull_cached_fetches) (simp add: hours_def seconds_def)
  show "\<forall>r w'. get_pull_cached w n None = Some (r, w') \<longrightarrow> calls w < calls w'"
    unfolding f using fetch_and_store_result(2) by blast
  assume busy: "(\<forall>j<k. responses w (calls w + j) n = Raises RateLimitExceededException) \<and>
       responses w (calls w + k) n = Returns pr"
  then show fetched: "get_pull_cached w n None =
           Some (Inr pr, w\<lparr>cache := (cache w)(n \<mapsto> (now w + seconds 20 * int k, pr)),
                           now := now w + seconds 20 * int k, calls := calls w + k + 1,
                           sleeps := sleeps w @ replicate k 20\<rparr>)"
    unfolding f by (intro fetch_and_store_retries) auto
  assume "startswith (head_ref item) ''backport/'' \<and>
          split_on (CHR ''/'') (head_ref item) = [a, b, c] \<and> py_int c = Some n"
  with fetched show "resolve_backport w item =
              Some (pr, w\<lparr>cache := (cache w)(n \<mapsto> (now w + seconds 20 * int k, pr)),
                          now := now w + seconds 20 * int k, calls := calls w + k + 1,
                          sleeps := sleeps w @ replicate k 20\<rparr>)"
    by (simp add: resolve_backport_def)
qed

theorem get_pull_cached_default_refetches_witness:
  "cache future_world 7 = Some (7200000500, stale_pr) \<and>
   now future_world + seconds 3600 < 7200000500 \<and>
   get_pull_cached future_world 7 None = Some (Inr stale_pr, future_world) \<and>
   cache example_world 7 = Some (100, stale_pr) \<and>
   100 \<le> now example_world + seconds 3600 \<and>
   startswith (head_ref backport_pr) ''backport/'' \<and>
   split_on (CHR ''/'') (head_ref backport_pr) = [''backport'', ''23.8'', ''7''] \<and>
   py_int ''7'' = Some 7 \<and>
   resolve_backport example_world backport_pr =
     Some (fresh_pr,
           example_world\<lparr>cache := (cache example_world)(7 \<mapsto> (now example_world + seconds 20 * int 2, fresh_pr)),
                          now := now example_world + seconds 20 * int 2,
                          calls := calls example_world + 2 + 1,
                          sleeps := sleeps example_world @ replicate 2 20\<rparr>) \<and>
   calls example_world < calls example_world + 2 + 1"
proof -
  have ahead: "cache future_world 7 = Some (7200000500, stale_pr) \<and>
      now future_world + seconds 3600 < 7200000500"
    by (simp add: future_world_def example_world_def seconds_def)
  have old: "cache example_world 7 = Some (100, stale_pr) \<and>
      100 \<le> now example_world + seconds 3600"
    by (simp add: example_world_def seconds_def)
  have b: "startswith (head_ref backport_pr) ''backport/'' \<and>
    split_on (CHR ''/'') (head_ref backport_pr) = [''backport'', ''23.8'', ''7''] \<and>
    py_int ''7'' = Some 7"
    by code_simp
  note inst = get_pull_cached_default_refetches
    [of example_world 7 future_world 7 7200000500 stale_pr 100 stale_pr 2 fresh_pr
        backport_pr "''backport''" "''23.8''" "''7''"]
  from inst ahead
  have "get_pull_cached future_world 7 None = Some (Inr stale_pr, future_world)"
    by blast
  moreover from inst old example_world_busy b
  have "resolve_backport example_world backport_pr =
     Some (fresh_pr,
           example_world\<lparr>cache := (cache example_world)(7 \<mapsto> (now example_world + seconds 20 * int 2, fresh_pr)),
                          now := now example_world + seconds 20 * int 2,
                          calls := calls example_world + 2 + 1,
                          sleeps := sleeps example_world @ replicate 2 20\<rparr>)"
    by blast
  moreover have "calls example_world < calls example_world + 2 + 1"
    by simp
  ultimately show ?thesis
    using ahead old b by blast
qed

section \<open>Classification of one pull request\<close>

lemma blank_is_no_header:
  "\<not> re_match category_header []" "\<not> re_match entry_header []"
  "\<not> re_match not_for_changelog []" "\<not> re_match documentation []"
  by (simp_all add: category_header_def entry_header_def not_for_changelog_def documentation_def)

lemma no_cl_category_passes:
  "\<not> re_match not_for_changelog ''NO CL CATEGORY''" "\<not> re_match documentation ''NO CL CATEGORY''"
  by code_simp+

lemma all_space_dropWhile:
  "(\<forall>x \<in> set (dropWhile P xs). P x) = (\<forall>x \<in> set xs. P x)"
proof
  assume a: "\<forall>x \<in> set (dropWhile P xs). P x"
  have "set xs = set (takeWhile P xs) \<union> set (dropWhile P xs)"
    by (metis set_append takeWhile_dropWhile_id)
  with a show "\<forall>x \<in> set xs. P x"
    by (auto dest: set_takeWhileD)
next
  assume "\<forall>x \<in> set xs. P x"
  then show "\<forall>x \<in> set (dropWhile P xs). P x"
    by (auto dest: set_dropWhileD)
qed

lemma strip_eq_Nil: "strip s = [] \<longleftrightarrow> (\<forall>c \<in> set s. is_space c)"
proof -
  have "strip s = [] \<longleftrightarrow> (\<forall>c \<in> set (dropWhile is_space (rev s)). is_space c)"
    by (simp add: strip_def dropWhile_eq_Nil_conv)
  also have "\<dots> \<longleftrightarrow> (\<forall>c \<in> set (rev s). is_space c)"
    by (rule all_space_dropWhile)
  finally show ?thesis by simp
qed

lemma strip_hd: "strip s \<noteq> [] \<Longrightarrow> \<not> is_space (hd (strip s))"
  unfolding strip_def by (rule hd_dropWhile)

lemma strip_id:
  assumes "s \<noteq> []" "\<not> is_space (hd s)" "\<not> is_space (last s)"
  shows "strip s = s"
proof -
  from assms have "dropWhile is_space (rev s) = rev s"
    by (cases "rev s") (auto simp: last_rev hd_rev)
  moreover from assms have "dropWhile is_space s = s"
    by (cases s) auto
  ultimately show ?thesis
    by (simp add: strip_def)
qed

text \<open>
  Claim C8. When the category read from the body matches the pattern of changes that are
  not for the changelog, the result is a description with the category
  \<^verbatim>\<open>NOT FOR CHANGELOG / INSIGNIFICANT\<close> and the title as its entry, whatever the parsed
  entry, the number of the backport and the similarity function are: no prefix, no
  period and no normalization are applied.
\<close>

theorem classify_item_not_for_changelog:
  assumes "re_match not_for_changelog (fst (parse_body (body item)))"
  shows "classify_item ratio backport_number item =
           Inr (Some \<lparr>number = pr_number item, user = pr_user item, html_url = pr_html_url item,
                      entry = title item, category = ''NOT FOR CHANGELOG / INSIGNIFICANT''\<rparr>) \<and>
         (resolve_backport w pr = Some (item, w') \<longrightarrow>
            generate_description ratio w pr =
              Some (Inr (Some \<lparr>number = pr_number item, user = pr_user item,
                                html_url = pr_html_url item, entry = title item,
                                category = ''NOT FOR CHANGELOG / INSIGNIFICANT''\<rparr>), w'))"
proof -
  obtain c e where p: "parse_body (body item) = (c, e)"
    by (cases "parse_body (body item)")
  with assms have m: "re_match not_for_changelog c"
    by simp
  with blank_is_no_header(3) have "c \<noteq> []"
    by auto
  with m p have "\<And>bn. classify_item ratio bn item =
           Inr (Some \<lparr>number = pr_number item, user = pr_user item, html_url = pr_html_url item,
                      entry = title item, category = ''NOT FOR CHANGELOG / INSIGNIFICANT''\<rparr>)"
    by (simp add: classify_item_def)
  then show ?thesis
    by (simp add: generate_description_def)
qed

theorem classify_item_not_for_changelog_witness:
  "re_match not_for_changelog (fst (parse_body (body quiet_pr))) \<and>
   classify_item exact_ratio 9 quiet_pr =
     Inr (Some \<lparr>number = 7, user = ''alice'', html_url = ''https://example.org/pull/7'',
                entry = ''Refactor tests'', category = ''NOT FOR CHANGELOG / INSIGNIFICANT''\<rparr>) \<and>
   snd (parse_body (body quiet_pr)) = ''Tests were refactored''"
proof -
  have h: "re_match not_for_changelog (fst (parse_body (body quiet_pr)))"
    by code_simp
  have e: "snd (parse_body (body quiet_pr)) = ''Tests were refactored''"
    by code_simp
  from classify_item_not_for_changelog [OF h, of exact_ratio 9, THEN conjunct1] h e
  show ?thesis
    by (simp add: quiet_pr_def)
qed


lemma body_lines_empty: "b = None \<or> b = Some [] \<Longrightarrow> body_lines b = []"
  by (auto simp: body_lines_def)

lemma no_cl_entry_text:
  "strip (''NO CL ENTRY:  '' @ [CHR 0x27] @ t @ [CHR 0x27]) = ''NO CL ENTRY:  '' @ [CHR 0x27] @ t @ [CHR 0x27]"
  by (rule strip_id) (simp_all add: is_space_def)

text \<open>
  Claim C7, as the code has it. For a pull request that is classified under its own
  number, with an empty or absent body and the title \<open>t\<close>, parsing finds nothing, the
  category \<^verbatim>\<open>NO CL CATEGORY\<close> passes both filters, and the result has the category
  \<^verbatim>\<open>NO CL ENTRY\<close> (when that text is not similar to a canonical name) and the entry
  \<^verbatim>\<open>NO CL ENTRY:\<close>, two spaces, \<open>t\<close> in single quotes, and a period, which is always added.
\<close>

theorem classify_item_empty_body:
  assumes "body item = None \<or> body item = Some []"
    and "\<forall>c \<in> set categories_preferred_order. ratio (lower ''NO CL ENTRY'') (lower c) < 90"
  shows "parse_body (body item) = ([], []) \<and>
         \<not> re_match not_for_changelog ''NO CL CATEGORY'' \<and>
         \<not> re_match documentation ''NO CL CATEGORY'' \<and>
         classify_item ratio (pr_number item) item =
           Inr (Some \<lparr>number = pr_number item, user = pr_user item, html_url = pr_html_url item,
                      entry = ''NO CL ENTRY:  '' @ [CHR 0x27] @ title item @ [CHR 0x27] @ ''.'',
                      category = ''NO CL ENTRY''\<rparr>) \<and>
         (\<not> startswith (head_ref item) ''backport/'' \<longrightarrow>
            generate_description ratio w item =
              Some (Inr (Some \<lparr>number = pr_number item, user = pr_user item,
                                html_url = pr_html_url item,
                                entry = ''NO CL ENTRY:  '' @ [CHR 0x27] @ title item @ [CHR 0x27] @ ''.'',
                                category = ''NO CL ENTRY''\<rparr>), w))"
proof -
  have p: "parse_body (body item) = ([], [])"
    using assms(1) by (simp add: parse_body_def body_lines_empty)
  have n: "normalize_category ratio categories_preferred_order ''NO CL ENTRY'' = ''NO CL ENTRY''"
    using assms(2) by (simp add: normalize_category_find find_None_iff [THEN iffD2] not_le)
  have c: "classify_item ratio (pr_number item) item =
           Inr (Some \<lparr>number = pr_number item, user = pr_user item, html_url = pr_html_url item,
                      entry = ''NO CL ENTRY:  '' @ [CHR 0x27] @ title item @ [CHR 0x27] @ ''.'',
                      category = ''NO CL ENTRY''\<rparr>)"
    unfolding classify_item_def p
    using no_cl_category_passes no_cl_entry_text [of "title item"]
    by (simp add: n)
  show ?thesis
    using p c no_cl_category_passes by (simp add: generate_description_def resolve_backport_def)
qed


theorem classify_item_empty_body_witness:
  "body empty_pr = None \<and>
   list_all (\<lambda>c. exact_ratio (lower ''NO CL ENTRY'') (lower c) < 90) categories_preferred_order \<and>
   \<not> startswith (head_ref empty_pr) ''backport/'' \<and>
   generate_description exact_ratio example_world empty_pr =
     Some (Inr (Some \<lparr>number = 7, user = ''alice'', html_url = ''https://example.org/pull/7'',
                       entry = ''NO CL ENTRY:  '' @ [CHR 0x27] @ ''Fix.'' @ [CHR 0x27] @ ''.'',
                       category = ''NO CL ENTRY''\<rparr>), example_world)"
proof -
  have b: "body empty_pr = None"
    by (simp add: empty_pr_def)
  have r: "list_all (\<lambda>c. exact_ratio (lower ''NO CL ENTRY'') (lower c) < 90) categories_preferred_order"
    by code_simp
  have h: "\<not> startswith (head_ref empty_pr) ''backport/''"
    by code_simp
  from r have r': "\<forall>c \<in> set categories_preferred_order. exact_ratio (lower ''NO CL ENTRY'') (lower c) < 90"
    by (simp add: list_all_iff)
  from classify_item_empty_body [of empty_pr exact_ratio example_world, OF disjI1 [OF b] r'] h
  have "generate_description exact_ratio example_world empty_pr =
     Some (Inr (Some \<lparr>number = pr_number empty_pr, user = pr_user empty_pr,
                       html_url = pr_html_url empty_pr,
                       entry = ''NO CL ENTRY:  '' @ [CHR 0x27] @ title empty_pr @ [CHR 0x27] @ ''.'',
                       category = ''NO CL ENTRY''\<rparr>), example_world)"
    by blast
  with b r h show ?thesis
    by (simp add: empty_pr_def)
qed

text \<open>
  With the title \<^verbatim>\<open>Fix.\<close> the entry has two spaces after the colon and a period after the
  closing quote; classified as the original of backport 9, the same pull request gets the
  category \<^verbatim>\<open>NO CL CATEGORY\<close> and no \<^verbatim>\<open>NO CL ENTRY\<close> text at all.
\<close>

theorem empty_body_entry_text_differs:
  "body empty_pr = None \<and> title empty_pr = ''Fix.'' \<and>
   classify_item exact_ratio 7 empty_pr =
     Inr (Some \<lparr>number = 7, user = ''alice'', html_url = ''https://example.org/pull/7'',
                entry = ''NO CL ENTRY:  '' @ [CHR 0x27] @ ''Fix.'' @ [CHR 0x27] @ ''.'',
                category = ''NO CL ENTRY''\<rparr>) \<and>
   ''NO CL ENTRY:  '' @ [CHR 0x27] @ ''Fix.'' @ [CHR 0x27] @ ''.'' \<noteq>
     ''NO CL ENTRY: '' @ [CHR 0x27] @ ''Fix.'' @ [CHR 0x27] \<and>
   classify_item exact_ratio 9 empty_pr =
     Inr (Some \<lparr>number = 7, user = ''alice'', html_url = ''https://example.org/pull/7'',
                entry = ''Backported in #9:.'', category = ''NO CL CATEGORY''\<rparr>)"
  by code_simp

lemma collapse_ws_hd:
  "s \<noteq> [] \<Longrightarrow> \<not> is_space (hd s) \<Longrightarrow> collapse_ws s \<noteq> [] \<and> hd (collapse_ws s) = hd s"
  by (cases s) auto

lemma collapse_ws_Nil: "collapse_ws s = [] \<longleftrightarrow> s = []"
  by (cases s) auto

lemma body_lines_visible:
  "l \<in> set (body_lines b) \<Longrightarrow> l = [] \<or> \<not> is_space (hd l)"
  by (auto simp: body_lines_def collapse_ws_Nil collapse_ws_hd strip_hd split: option.splits if_splits)

lemma join_hd:
  "xs \<noteq> [] \<Longrightarrow> hd xs \<noteq> [] \<Longrightarrow> join sep xs \<noteq> [] \<and> hd (join sep xs) = hd (hd xs)"
  by (induction sep xs rule: join.induct) auto

lemma entry_lines_visible:
  assumes "\<forall>l \<in> set ls. l = [] \<or> \<not> is_space (hd l)"
  shows "join sep (takeWhile (\<lambda>l. l \<noteq> []) ls) = [] \<or>
         \<not> is_space (hd (join sep (takeWhile (\<lambda>l. l \<noteq> []) ls)))"
proof (cases "takeWhile (\<lambda>l. l \<noteq> []) ls")
  case Nil
  then show ?thesis by simp
next
  case (Cons x xs)
  then have "x \<in> set (takeWhile (\<lambda>l. l \<noteq> []) ls)"
    by simp
  then have "x \<in> set ls" and "x \<noteq> []"
    by (auto dest: set_takeWhileD)
  with assms have "\<not> is_space (hd x)"
    by auto
  with Cons \<open>x \<noteq> []\<close> join_hd [of "x # xs" sep] show ?thesis
    by simp
qed

lemma scan_lines_entry_visible:
  "\<forall>l \<in> set ls. l = [] \<or> \<not> is_space (hd l) \<Longrightarrow> e = [] \<or> \<not> is_space (hd e) \<Longrightarrow>
   snd (scan_lines ls c e) = [] \<or> \<not> is_space (hd (snd (scan_lines ls c e)))"
proof (induction "length ls" arbitrary: ls c e rule: less_induct)
  case less
  note IH = less.hyps and vis = less.prems(1) and e = less.prems(2)
  show ?case
  proof (cases ls)
    case Nil
    with e show ?thesis by simp
  next
    case (Cons ln rest)
    have step: "snd (scan_lines ls' c' e') = [] \<or> \<not> is_space (hd (snd (scan_lines ls' c' e')))"
      if "set ls' \<subseteq> set rest" "length ls' \<le> length rest" "e' = [] \<or> \<not> is_space (hd e')"
      for ls' c' e'
      using that vis Cons by (intro IH) auto
    consider (cat) "re_match category_header ln"
      | (ent) "\<not> re_match category_header ln" "re_match entry_header ln"
      | (other) "\<not> re_match category_header ln" "\<not> re_match entry_header ln"
      by blast
    then show ?thesis
    proof cases
      case cat
      show ?thesis
      proof (cases rest)
        case Nil
        with cat Cons e show ?thesis by simp
      next
        case r: (Cons l1 rest1)
        show ?thesis
        proof (cases "l1 = []")
          case False
          with cat Cons r have "scan_lines ls c e = scan_lines rest1 (strip_markers l1) e"
            by simp
          moreover have "snd (scan_lines rest1 (strip_markers l1) e) = [] \<or>
              \<not> is_space (hd (snd (scan_lines rest1 (strip_markers l1) e)))"
            using r e by (intro step) auto
          ultimately show ?thesis by simp
        next
          case True
          show ?thesis
          proof (cases rest1)
            case Nil
            with cat Cons r True e show ?thesis by simp
          next
            case r1: (Cons l2 rest2)
            with cat Cons r True have "scan_lines ls c e = scan_lines rest2 (strip_markers l2) e"
              by simp
            moreover have "snd (scan_lines rest2 (strip_markers l2) e) = [] \<or>
                \<not> is_space (hd (snd (scan_lines rest2 (strip_markers l2) e)))"
              using r r1 e by (intro step) auto
            ultimately show ?thesis by simp
          qed
        qed
      qed
    next
      case ent
      define rest' where "rest' = (case rest of [] \<Rightarrow> [] | l1 # rest1 \<Rightarrow> if l1 = [] then rest1 else rest)"
      have sub: "set rest' \<subseteq> set rest" and len: "length rest' \<le> length rest"
        by (auto simp: rest'_def split: list.splits)
      from sub vis Cons have v: "\<forall>l \<in> set rest'. l = [] \<or> \<not> is_space (hd l)"
        by auto
      have "scan_lines ls c e =
          scan_lines (dropWhile (\<lambda>l. l \<noteq> []) rest') c (join '' '' (takeWhile (\<lambda>l. l \<noteq> []) rest'))"
        using ent Cons by (simp add: rest'_def Let_def)
      moreover have "snd (scan_lines (dropWhile (\<lambda>l. l \<noteq> []) rest') c
            (join '' '' (takeWhile (\<lambda>l. l \<noteq> []) rest'))) = [] \<or>
          \<not> is_space (hd (snd (scan_lines (dropWhile (\<lambda>l. l \<noteq> []) rest') c
            (join '' '' (takeWhile (\<lambda>l. l \<noteq> []) rest')))))"
      proof (rule step)
        show "set (dropWhile (\<lambda>l. l \<noteq> []) rest') \<subseteq> set rest"
          using sub by (auto dest: set_dropWhileD)
        show "length (dropWhile (\<lambda>l. l \<noteq> []) rest') \<le> length rest"
          using len length_dropWhile_le [of "\<lambda>l. l \<noteq> []" rest'] by linarith
        show "join '' '' (takeWhile (\<lambda>l. l \<noteq> []) rest') = [] \<or>
            \<not> is_space (hd (join '' '' (takeWhile (\<lambda>l. l \<noteq> []) rest')))"
          by (rule entry_lines_visible [OF v])
      qed
      ultimately show ?thesis by simp
    next
      case other
      with Cons have "scan_lines ls c e = scan_lines rest c e"
        by simp
      moreover have "snd (scan_lines rest c e) = [] \<or> \<not> is_space (hd (snd (scan_lines rest c e)))"
        using e by (intro step) auto
      ultimately show ?thesis by simp
    qed
  qed
qed

lemma parse_body_entry_visible:
  "snd (parse_body b) = [] \<or> \<not> is_space (hd (snd (parse_body b)))"
  unfolding parse_body_def
  by (rule scan_lines_entry_visible) (auto dest: body_lines_visible)

lemma visible_strip: "s \<noteq> [] \<Longrightarrow> \<not> is_space (hd s) \<Longrightarrow> strip s \<noteq> []"
  by (cases s) (auto simp: strip_eq_Nil)

text \<open>
  Claim C1, as the code has it. Let \<open>s\<close> be the category that classification holds after
  parsing (the extracted text, or \<^verbatim>\<open>NO CL CATEGORY\<close> when none was found), and let its
  similarity with a canonical name \<open>C\<close> be \<open>ratio (lower s) (lower C)\<close>. When \<open>s\<close> reaches the
  normalization loop, that is when it matches neither filter and the entry, after the
  backport prefix, is not empty, a description is returned, and its category is the first
  name of \<open>categories_preferred_order\<close> that scores at least 90, or \<open>s\<close> itself when no name
  does.
\<close>

theorem classify_item_normalizes_category:
  assumes "parse_body (body item) = (c0, e)"
    and "s = (if c0 = [] then ''NO CL CATEGORY'' else c0)"
    and "\<not> re_match not_for_changelog s" and "\<not> re_match documentation s"
    and "backport_number \<noteq> pr_number item \<or> e \<noteq> []"
  shows "\<exists>d. classify_item ratio backport_number item = Inr (Some d) \<and>
           category d =
             (case List.find (\<lambda>C. 90 \<le> ratio (lower s) (lower C)) categories_preferred_order of
                None \<Rightarrow> s | Some C \<Rightarrow> C) \<and>
           ((\<exists>C \<in> set categories_preferred_order. 90 \<le> ratio (lower s) (lower C)) \<longrightarrow>
              (\<exists>i < length categories_preferred_order.
                  category d = categories_preferred_order ! i \<and>
                  90 \<le> ratio (lower s) (lower (categories_preferred_order ! i)) \<and>
                  (\<forall>j < i. ratio (lower s) (lower (categories_preferred_order ! j)) < 90))) \<and>
           ((\<forall>C \<in> set categories_preferred_order. ratio (lower s) (lower C) < 90) \<longrightarrow>
              category d = s) \<and>
           (resolve_backport w pr = Some (item, w') \<and> pr_number pr = backport_number \<longrightarrow>
              generate_description ratio w pr = Some (Inr (Some d), w'))"
proof -
  from parse_body_entry_visible [of "body item"] assms(1)
  have e: "e = [] \<or> \<not> is_space (hd e)"
    by simp
  define e1 where "e1 = (if backport_number \<noteq> pr_number item
                          then ''Backported in #'' @ str_int backport_number @ '': '' @ e
                          else e)"
  have "\<not> is_space CHR ''B''"
    by (simp add: is_space_def)
  with e assms(5) have e1: "e1 \<noteq> [] \<and> \<not> is_space (hd e1)"
    by (auto simp: e1_def)
  then have stripped: "strip e1 \<noteq> []"
    by (simp add: visible_strip)
  have "\<exists>A en. classify_item ratio backport_number item =
     (if re_match not_for_changelog s then Inr (Some A)
      else if re_match documentation s then Inr None
      else if strip (if e1 = [] then ''NO CL ENTRY:  '' @ [CHR 0x27] @ title item @ [CHR 0x27] else e1) = []
           then Inl IndexError
           else Inr (Some \<lparr>number = pr_number item, user = pr_user item,
                            html_url = pr_html_url item, entry = en,
                            category = normalize_category ratio categories_preferred_order
                                         (if e1 = [] then ''NO CL ENTRY'' else s)\<rparr>))"
    unfolding classify_item_def assms(1) assms(2) Let_def split_conv e1_def
    by (intro exI) (rule refl)
  then obtain en where c: "classify_item ratio backport_number item =
      Inr (Some \<lparr>number = pr_number item, user = pr_user item,
                 html_url = pr_html_url item, entry = en,
                 category = normalize_category ratio categories_preferred_order s\<rparr>)"
    using assms(3,4) e1 stripped by auto
  define d where "d = \<lparr>number = pr_number item, user = pr_user item,
                 html_url = pr_html_url item, entry = en,
                 category = normalize_category ratio categories_preferred_order s\<rparr>"
  have cat: "category d = normalize_category ratio categories_preferred_order s"
    by (simp add: d_def)
  have 1: "classify_item ratio backport_number item = Inr (Some d)"
    using c by (simp add: d_def)
  have 2: "category d =
             (case List.find (\<lambda>C. 90 \<le> ratio (lower s) (lower C)) categories_preferred_order of
                None \<Rightarrow> s | Some C \<Rightarrow> C)"
    unfolding cat by (rule normalize_category_find)
  have 3: "(\<exists>C \<in> set categories_preferred_order. 90 \<le> ratio (lower s) (lower C)) \<longrightarrow>
              (\<exists>i < length categories_preferred_order.
                  category d = categories_preferred_order ! i \<and>
                  90 \<le> ratio (lower s) (lower (categories_preferred_order ! i)) \<and>
                  (\<forall>j < i. ratio (lower s) (lower (categories_preferred_order ! j)) < 90))"
    unfolding cat by (rule normalize_category_first [THEN conjunct1])
  have 4: "(\<forall>C \<in> set categories_preferred_order. ratio (lower s) (lower C) < 90) \<longrightarrow>
              category d = s"
    unfolding cat by (rule normalize_category_first [THEN conjunct2])
  have 5: "resolve_backport w pr = Some (item, w') \<and> pr_number pr = backport_number \<longrightarrow>
              generate_description ratio w pr = Some (Inr (Some d), w')"
    using 1 by (auto simp: generate_description_def)
  from 1 2 3 4 5 show ?thesis
    by blast
qed

theorem classify_item_normalizes_category_witness:
  "parse_body (body loud_pr) = (''BUG fix'', ''Fixed a crash'') \<and>
   \<not> re_match not_for_changelog ''BUG fix'' \<and> \<not> re_match documentation ''BUG fix'' \<and>
   parse_body (body misc_pr) = (''Misc'', ''Fixed a crash'') \<and>
   \<not> re_match not_for_changelog ''Misc'' \<and> \<not> re_match documentation ''Misc'' \<and>
   (\<exists>C \<in> set categories_preferred_order. 90 \<le> exact_ratio (lower ''BUG fix'') (lower C)) \<and>
   list_all (\<lambda>C. exact_ratio (lower ''Misc'') (lower C) < 90) categories_preferred_order \<and>
   (\<exists>d. classify_item exact_ratio 7 loud_pr = Inr (Some d) \<and>
        (\<exists>i < length categories_preferred_order.
            category d = categories_preferred_order ! i \<and>
            90 \<le> exact_ratio (lower ''BUG fix'') (lower (categories_preferred_order ! i)) \<and>
            (\<forall>j < i. exact_ratio (lower ''BUG fix'') (lower (categories_preferred_order ! j)) < 90))) \<and>
   (\<exists>d. classify_item exact_ratio 7 misc_pr = Inr (Some d) \<and> category d = ''Misc'') \<and>
   map_sum id (map_option category) (classify_item exact_ratio 7 loud_pr) = Inr (Some ''Bug Fix'')"
proof -
  have p1: "parse_body (body loud_pr) = (''BUG fix'', ''Fixed a crash'')"
    and p2: "parse_body (body misc_pr) = (''Misc'', ''Fixed a crash'')"
    by code_simp+
  have f1: "\<not> re_match not_for_changelog ''BUG fix''" "\<not> re_match documentation ''BUG fix''"
    and f2: "\<not> re_match not_for_changelog ''Misc''" "\<not> re_match documentation ''Misc''"
    by code_simp+
  have "''Bug Fix'' \<in> set categories_preferred_order"
    by (simp add: categories_preferred_order_def)
  moreover have "90 \<le> exact_ratio (lower ''BUG fix'') (lower ''Bug Fix'')"
    by code_simp
  ultimately have some: "\<exists>C \<in> set categories_preferred_order.
      90 \<le> exact_ratio (lower ''BUG fix'') (lower C)"
    by blast
  have all: "list_all (\<lambda>C. exact_ratio (lower ''Misc'') (lower C) < 90) categories_preferred_order"
    by code_simp
  then have none: "\<forall>C \<in> set categories_preferred_order. exact_ratio (lower ''Misc'') (lower C) < 90"
    by (simp add: list_all_iff)
  have e: "(7::int) \<noteq> 7 \<or> ''Fixed a crash'' \<noteq> []"
    by simp
  have n1: "pr_number loud_pr = 7" and n2: "pr_number misc_pr = 7"
    by (simp_all add: loud_pr_def misc_pr_def)
  from classify_item_normalizes_category
    [of loud_pr "''BUG fix''" "''Fixed a crash''" "''BUG fix''" 7 exact_ratio, OF p1 _ f1] some e n1
  have w1: "\<exists>d. classify_item exact_ratio 7 loud_pr = Inr (Some d) \<and>
        (\<exists>i < length categories_preferred_order.
            category d = categories_preferred_order ! i \<and>
            90 \<le> exact_ratio (lower ''BUG fix'') (lower (categories_preferred_order ! i)) \<and>
            (\<forall>j < i. exact_ratio (lower ''BUG fix'') (lower (categories_preferred_order ! j)) < 90))"
    by simp blast
  from classify_item_normalizes_category
    [of misc_pr "''Misc''" "''Fixed a crash''" "''Misc''" 7 exact_ratio, OF p2 _ f2] none e n2
  have w2: "\<exists>d. classify_item exact_ratio 7 misc_pr = Inr (Some d) \<and> category d = ''Misc''"
    by simp blast
  have v: "map_sum id (map_option category) (classify_item exact_ratio 7 loud_pr) = Inr (Some ''Bug Fix'')"
    by code_simp
  from p1 p2 f1 f2 some all w1 w2 v show ?thesis
    by blast
qed

text \<open>
  The category \<^verbatim>\<open>BUG fix\<close> scores 100 against \<^verbatim>\<open>Bug Fix\<close>, yet with no entry in the body
  the description carries \<^verbatim>\<open>NO CL ENTRY\<close>; the category \<^verbatim>\<open>Not for changelog\<close> scores
  below 90 against every canonical name, yet it is not left unchanged.
\<close>

theorem extracted_category_not_normalized:
  "parse_body (body terse_pr) = (''BUG fix'', []) \<and>
   exact_ratio (lower ''BUG fix'') (lower ''Bug Fix'') = 100 \<and>
   ''Bug Fix'' \<in> set categories_preferred_order \<and>
   map_sum id (map_option category) (classify_item exact_ratio 7 terse_pr) = Inr (Some ''NO CL ENTRY'') \<and>
   fst (parse_body (body quiet_pr)) = ''Not for changelog'' \<and>
   list_all (\<lambda>C. exact_ratio (lower ''Not for changelog'') (lower C) < 90) categories_preferred_order \<and>
   map_sum id (map_option category) (classify_item exact_ratio 7 quiet_pr) =
     Inr (Some ''NOT FOR CHANGELOG / INSIGNIFICANT'')"
  by code_simp

text \<open>
  Claim C10. Where the period rule reads the last character, the stripped entry is not
  empty: \<^verbatim>\<open>classify_item\<close> never ends in \<^verbatim>\<open>IndexError\<close>, it always returns.
\<close>

theorem classify_item_never_index_error:
  "classify_item ratio backport_number item \<noteq> Inl IndexError \<and>
   (\<exists>d. classify_item ratio backport_number item = Inr d)"
proof -
  obtain c e where p: "parse_body (body item) = (c, e)"
    by (cases "parse_body (body item)")
  with parse_body_entry_visible [of "body item"] have e: "e = [] \<or> \<not> is_space (hd e)"
    by simp
  define c1 where "c1 = (if c = [] then ''NO CL CATEGORY'' else c)"
  define e1 where "e1 = (if backport_number \<noteq> pr_number item
                          then ''Backported in #'' @ str_int backport_number @ '': '' @ e
                          else e)"
  define e2 where "e2 = (if e1 = [] then ''NO CL ENTRY:  '' @ [CHR 0x27] @ title item @ [CHR 0x27]
                          else e1)"
  have "\<not> is_space CHR ''B''" "\<not> is_space CHR ''N''"
    by (simp_all add: is_space_def)
  with e have "e1 = [] \<or> \<not> is_space (hd e1)"
    by (auto simp: e1_def)
  with \<open>\<not> is_space CHR ''N''\<close> have "e2 \<noteq> [] \<and> \<not> is_space (hd e2)"
    by (auto simp: e2_def)
  then have e2: "strip e2 \<noteq> []"
    by (simp add: visible_strip)
  have "\<exists>A B. classify_item ratio backport_number item =
     (if re_match not_for_changelog c1 then Inr (Some A)
      else if re_match documentation c1 then Inr None
      else if strip e2 = [] then Inl IndexError else Inr (Some B))"
    unfolding classify_item_def p Let_def split_conv c1_def e1_def e2_def
    by (intro exI) (rule refl)
  then obtain A B where "classify_item ratio backport_number item =
     (if re_match not_for_changelog c1 then Inr (Some A)
      else if re_match documentation c1 then Inr None
      else if strip e2 = [] then Inl IndexError else Inr (Some B))"
    by blast
  with e2 show ?thesis
    by auto
qed

section \<open>What the scan extracts from a body of blocks\<close>

lemma scan_lines_blank: "scan_lines ([] # rest) c e = scan_lines rest c e"
  using blank_is_no_header(1,2) by simp

lemma lines_of_simps:
  "lines_of [] = []" "lines_of (b # bs) = block_lines b @ lines_of bs"
  "lines_of (bs @ bs') = lines_of bs @ lines_of bs'"
  by (simp_all add: lines_of_def)

lemma block_lines_not_Nil: "block_lines b \<noteq> []"
  by (cases b) simp_all

lemma lines_of_Nil: "lines_of bs = [] \<longleftrightarrow> bs = []"
  by (cases bs) (simp_all add: lines_of_simps block_lines_not_Nil)

lemma scan_lines_category_block:
  assumes "re_match category_header hdr" and "gap \<or> ln \<noteq> []"
  shows "scan_lines (block_lines (CategoryBlock hdr gap ln) @ rest) c e =
           scan_lines rest (strip_markers ln) e"
  using assms by auto

lemma scan_lines_dangling:
  assumes "re_match category_header hdr"
  shows "scan_lines (block_lines (DanglingCategory hdr gap)) c e = (c, e)"
  using assms by simp

lemma entry_lines_split:
  assumes "[] \<notin> set lns" and "rest = [] \<or> hd rest = []"
  shows "takeWhile (\<lambda>l. l \<noteq> []) (lns @ rest) = lns"
    and "dropWhile (\<lambda>l. l \<noteq> []) (lns @ rest) = rest"
proof -
  have all: "\<forall>l \<in> set lns. l \<noteq> []"
    using assms(1) by auto
  from assms(2) have "takeWhile (\<lambda>l. l \<noteq> []) rest = []" and "dropWhile (\<lambda>l. l \<noteq> []) rest = rest"
    by (cases rest; simp)+
  with all show "takeWhile (\<lambda>l. l \<noteq> []) (lns @ rest) = lns"
    and "dropWhile (\<lambda>l. l \<noteq> []) (lns @ rest) = rest"
    by simp_all
qed

lemma scan_lines_entry_block:
  assumes "\<not> re_match category_header hdr" and "re_match entry_header hdr"
    and "[] \<notin> set lns" and "rest = [] \<or> hd rest = []" and "gap \<or> lns \<noteq> [] \<or> rest = []"
  shows "scan_lines (block_lines (EntryBlock hdr gap lns) @ rest) c e =
           scan_lines rest c (join '' '' lns)"
proof -
  have skipped: "(case (if gap then [[]] else []) @ lns @ rest of [] \<Rightarrow> []
          | l1 # rest1 \<Rightarrow> if l1 = [] then rest1 else (if gap then [[]] else []) @ lns @ rest)
        = lns @ rest"
  proof (cases gap)
    case True
    then show ?thesis by simp
  next
    case False
    show ?thesis
    proof (cases lns)
      case Nil
      with False assms(5) show ?thesis by simp
    next
      case (Cons x xs)
      with assms(3) have "x \<noteq> []" by auto
      with False Cons show ?thesis by simp
    qed
  qed
  have "scan_lines (hdr # (if gap then [[]] else []) @ lns @ rest) c e =
      scan_lines (dropWhile (\<lambda>l. l \<noteq> []) (lns @ rest)) c
        (join '' '' (takeWhile (\<lambda>l. l \<noteq> []) (lns @ rest)))"
    using assms(1,2) by (simp add: Let_def skipped)
  then show ?thesis
    by (simp add: entry_lines_split [OF assms(3,4)])
qed

lemma scan_lines_blocks:
  "well_formed bs \<Longrightarrow> scan_lines (lines_of bs) c e = foldl capture (c, e) bs"
proof (induction bs arbitrary: c e)
  case Nil
  then show ?case by (simp add: lines_of_simps)
next
  case (Cons b bs)
  show ?case
  proof (cases b)
    case (CategoryBlock hdr gap ln)
    with Cons.prems have wf: "re_match category_header hdr" "gap \<or> ln \<noteq> []" "well_formed bs"
      by simp_all
    have "scan_lines (lines_of (b # bs)) c e = scan_lines (lines_of bs) (strip_markers ln) e"
      unfolding lines_of_simps CategoryBlock by (rule scan_lines_category_block [OF wf(1,2)])
    also have "\<dots> = foldl capture (strip_markers ln, e) bs"
      by (rule Cons.IH [OF wf(3)])
    finally show ?thesis
      by (simp add: CategoryBlock)
  next
    case (DanglingCategory hdr gap)
    with Cons.prems have wf: "re_match category_header hdr" "bs = []"
      by simp_all
    have "scan_lines (lines_of (b # bs)) c e = (c, e)"
      unfolding lines_of_simps DanglingCategory wf(2) append_Nil2
      by (rule scan_lines_dangling [OF wf(1)])
    then show ?thesis
      by (simp add: DanglingCategory wf(2))
  next
    case (EntryBlock hdr gap lns)
    with Cons.prems have wf: "\<not> re_match category_header hdr" "re_match entry_header hdr"
      "[] \<notin> set lns" "lines_of bs = [] \<or> hd (lines_of bs) = []"
      "gap \<or> lns \<noteq> [] \<or> lines_of bs = []" "well_formed bs"
      by simp_all
    have "scan_lines (lines_of (b # bs)) c e = scan_lines (lines_of bs) c (join '' '' lns)"
      unfolding lines_of_simps EntryBlock by (rule scan_lines_entry_block [OF wf(1-5)])
    also have "\<dots> = foldl capture (c, join '' '' lns) bs"
      by (rule Cons.IH [OF wf(6)])
    finally show ?thesis
      by (simp add: EntryBlock)
  next
    case (OtherLine ln)
    with Cons.prems have wf: "\<not> re_match category_header ln" "\<not> re_match entry_header ln"
      "well_formed bs"
      by simp_all
    have "scan_lines (lines_of (b # bs)) c e = scan_lines (lines_of bs) c e"
      unfolding lines_of_simps OtherLine using wf(1,2) by simp
    also have "\<dots> = foldl capture (c, e) bs"
      by (rule Cons.IH [OF wf(3)])
    finally show ?thesis
      by (simp add: OtherLine)
  qed
qed

lemma blocks_exist: "\<exists>bs. well_formed bs \<and> lines_of bs = ls"
proof (induction "length ls" arbitrary: ls rule: less_induct)
  case less
  show ?case
  proof (cases ls)
    case Nil
    have "well_formed [] \<and> lines_of [] = ls"
      by (simp add: Nil lines_of_simps)
    then show ?thesis ..
  next
    case (Cons ln rest)
    have shorter: "\<exists>bs. well_formed bs \<and> lines_of bs = ls'" if "length ls' \<le> length rest" for ls'
      using that Cons by (intro less.hyps) simp
    consider (cat) "re_match category_header ln"
      | (ent) "\<not> re_match category_header ln" "re_match entry_header ln"
      | (other) "\<not> re_match category_header ln" "\<not> re_match entry_header ln"
      by blast
    then show ?thesis
    proof cases
      case cat
      show ?thesis
      proof (cases rest)
        case Nil
        have "well_formed [DanglingCategory ln False] \<and> lines_of [DanglingCategory ln False] = ls"
          using cat Cons Nil by (simp add: lines_of_simps)
        then show ?thesis ..
      next
        case r: (Cons l1 rest1)
        show ?thesis
        proof (cases "l1 = []")
          case False
          from shorter [of rest1] r obtain bs where bs: "well_formed bs" "lines_of bs = rest1"
            by auto
          have "well_formed (CategoryBlock ln False l1 # bs) \<and>
              lines_of (CategoryBlock ln False l1 # bs) = ls"
            using cat Cons r False bs by (simp add: lines_of_simps)
          then show ?thesis ..
        next
          case True
          show ?thesis
          proof (cases rest1)
            case Nil
            have "well_formed [DanglingCategory ln True] \<and> lines_of [DanglingCategory ln True] = ls"
              using cat Cons r True Nil by (simp add: lines_of_simps)
            then show ?thesis ..
          next
            case r1: (Cons l2 rest2)
            from shorter [of rest2] r r1 obtain bs where bs: "well_formed bs" "lines_of bs = rest2"
              by auto
            have "well_formed (CategoryBlock ln True l2 # bs) \<and>
                lines_of (CategoryBlock ln True l2 # bs) = ls"
              using cat Cons r True r1 bs by (simp add: lines_of_simps)
            then show ?thesis ..
          qed
        qed
      qed
    next
      case ent
      define gap where "gap = (rest \<noteq> [] \<and> hd rest = [])"
      define rest' where "rest' = (if gap then tl rest else rest)"
      define lns where "lns = takeWhile (\<lambda>l. l \<noteq> []) rest'"
      define after where "after = dropWhile (\<lambda>l. l \<noteq> []) rest'"
      have split: "rest = (if gap then [[]] else []) @ lns @ after"
        by (cases rest) (auto simp: gap_def rest'_def lns_def after_def)
      have "length rest' \<le> length rest"
        by (simp add: rest'_def)
      then have "length after \<le> length rest"
        unfolding after_def using length_dropWhile_le [of "\<lambda>l. l \<noteq> []" rest'] by linarith
      from shorter [OF this] obtain bs where bs: "well_formed bs" "lines_of bs = after"
        by auto
      have nb: "[] \<notin> set lns"
        unfolding lns_def by (auto dest: set_takeWhileD)
      have stop: "after = [] \<or> hd after = []"
        unfolding after_def using hd_dropWhile [of "\<lambda>l. l \<noteq> []" rest'] by auto
      have last: "gap \<or> lns \<noteq> [] \<or> after = []"
      proof (cases "gap \<or> lns \<noteq> []")
        case True
        then show ?thesis by blast
      next
        case False
        then have "\<not> gap" "lns = []" by simp_all
        then have "rest' = rest" "rest = after"
          using split by (simp_all add: rest'_def)
        with stop \<open>\<not> gap\<close> have "after = []"
          by (auto simp: gap_def)
        then show ?thesis by simp
      qed
      have "well_formed (EntryBlock ln gap lns # bs) \<and> lines_of (EntryBlock ln gap lns # bs) = ls"
        using ent Cons bs nb stop last split by (simp add: lines_of_simps)
      then show ?thesis ..
    next
      case other
      from shorter [of rest] obtain bs where bs: "well_formed bs" "lines_of bs = rest"
        by auto
      have "well_formed (OtherLine ln # bs) \<and> lines_of (OtherLine ln # bs) = ls"
        using other Cons bs by (simp add: lines_of_simps)
      then show ?thesis ..
    qed
  qed
qed

lemma parse_body_blocks:
  assumes "well_formed bs" and "lines_of bs = body_lines b"
  shows "parse_body b = foldl capture ([], []) bs"
  unfolding parse_body_def assms(2) [symmetric] by (rule scan_lines_blocks [OF assms(1)])

lemma foldl_capture_category:
  "list_all (\<lambda>x. \<not> is_category_block x) bs \<Longrightarrow> fst (foldl capture s bs) = fst s"
proof (induction bs arbitrary: s)
  case Nil
  then show ?case by simp
next
  case (Cons b bs)
  then show ?case by (cases b; cases s) auto
qed

lemma foldl_capture_entry:
  "list_all (\<lambda>x. \<not> is_entry_block x) bs \<Longrightarrow> snd (foldl capture s bs) = snd s"
proof (induction bs arbitrary: s)
  case Nil
  then show ?case by simp
next
  case (Cons b bs)
  then show ?case by (cases b; cases s) auto
qed

lemma foldl_capture_neither:
  "list_all (\<lambda>x. \<not> is_category_block x \<and> \<not> is_entry_block x) bs \<Longrightarrow> foldl capture s bs = s"
proof (induction bs arbitrary: s)
  case Nil
  then show ?case by simp
next
  case (Cons b bs)
  then show ?case by (cases b; cases s) auto
qed

lemma capture_swap:
  "capture (capture s (CategoryBlock hc gc ln)) (EntryBlock he ge lns) =
   capture (capture s (EntryBlock he ge lns)) (CategoryBlock hc gc ln)"
  by (cases s) simp


text \<open>
  Claim C4, as the code has it. The scan never stops honouring headers: every block it
  reads overwrites what an earlier block of the same kind captured. Every body is a
  well-formed sequence of blocks, and for every such reading of a body the pair
  extracted is the one obtained by letting each block overwrite in turn, so the category
  is that of the last category block and the entry that of the last entry block.
\<close>

theorem parse_body_last_occurrence:
  "(\<exists>bs. well_formed bs \<and> lines_of bs = body_lines b) \<and>
   (well_formed bs \<and> lines_of bs = body_lines b \<longrightarrow>
      parse_body b = foldl capture ([], []) bs \<and>
      (bs = pre @ CategoryBlock hdr gap ln # post \<and>
       list_all (\<lambda>x. \<not> is_category_block x) post \<longrightarrow>
         fst (parse_body b) = strip_markers ln) \<and>
      (bs = pre' @ EntryBlock hdr' gap' lns # post' \<and>
       list_all (\<lambda>x. \<not> is_entry_block x) post' \<longrightarrow>
         snd (parse_body b) = join '' '' lns))"
proof (intro conjI impI)
  show "\<exists>bs. well_formed bs \<and> lines_of bs = body_lines b"
    by (rule blocks_exist)
next
  assume r: "well_formed bs \<and> lines_of bs = body_lines b"
  then show p: "parse_body b = foldl capture ([], []) bs"
    by (intro parse_body_blocks) simp_all
  {
    assume "bs = pre @ CategoryBlock hdr gap ln # post \<and>
       list_all (\<lambda>x. \<not> is_category_block x) post"
    moreover obtain c e where "foldl capture ([], []) pre = (c, e)"
      by (cases "foldl capture ([], []) pre")
    ultimately show "fst (parse_body b) = strip_markers ln"
      unfolding p by (simp add: foldl_capture_category)
  }
  {
    assume "bs = pre' @ EntryBlock hdr' gap' lns # post' \<and>
       list_all (\<lambda>x. \<not> is_entry_block x) post'"
    moreover obtain c e where "foldl capture ([], []) pre' = (c, e)"
      by (cases "foldl capture ([], []) pre'")
    ultimately show "snd (parse_body b) = join '' '' lns"
      unfolding p by (simp add: foldl_capture_entry)
  }
qed

theorem parse_body_last_occurrence_witness:
  "well_formed repeated_blocks \<and>
   lines_of repeated_blocks = body_lines (Some repeated_body) \<and>
   list_all (\<lambda>x. \<not> is_category_block x) [EntryBlock ''Short description:'' False [''Faster parser'']] \<and>
   list_all (\<lambda>x. \<not> is_entry_block x) [] \<and>
   parse_body (Some repeated_body) = (''Improvement'', ''Faster parser'')"
proof -
  have r: "well_formed repeated_blocks \<and> lines_of repeated_blocks = body_lines (Some repeated_body)"
    by code_simp
  have c: "repeated_blocks =
      [CategoryBlock ''### Changelog category:'' False ''- Bug Fix'',
       EntryBlock ''### Changelog entry:'' False [''Fixed a crash''], OtherLine []] @
      CategoryBlock ''Changelog category:'' True ''Improvement'' #
      [EntryBlock ''Short description:'' False [''Faster parser'']] \<and>
    list_all (\<lambda>x. \<not> is_category_block x) [EntryBlock ''Short description:'' False [''Faster parser'']]"
    by (simp add: repeated_blocks_def)
  have e: "repeated_blocks =
      [CategoryBlock ''### Changelog category:'' False ''- Bug Fix'',
       EntryBlock ''### Changelog entry:'' False [''Fixed a crash''], OtherLine [],
       CategoryBlock ''Changelog category:'' True ''Improvement''] @
      EntryBlock ''Short description:'' False [''Faster parser''] # [] \<and>
    list_all (\<lambda>x. \<not> is_entry_block x) []"
    by (simp add: repeated_blocks_def)
  note inst = parse_body_last_occurrence
    [of "Some repeated_body" repeated_blocks
        "[CategoryBlock ''### Changelog category:'' False ''- Bug Fix'',
          EntryBlock ''### Changelog entry:'' False [''Fixed a crash''], OtherLine []]"
        "''Changelog category:''" True "''Improvement''"
        "[EntryBlock ''Short description:'' False [''Faster parser'']]"
        "[CategoryBlock ''### Changelog category:'' False ''- Bug Fix'',
          EntryBlock ''### Changelog entry:'' False [''Fixed a crash''], OtherLine [],
          CategoryBlock ''Changelog category:'' True ''Improvement'']"
        "''Short description:''" False "[''Faster parser'']" "[]"]
  from inst r c have "fst (parse_body (Some repeated_body)) = strip_markers ''Improvement''"
    by blast
  moreover from inst r e have "snd (parse_body (Some repeated_body)) = join '' '' [''Faster parser'']"
    by blast
  moreover have "strip_markers ''Improvement'' = ''Improvement''"
    by code_simp
  ultimately have "parse_body (Some repeated_body) = (''Improvement'', ''Faster parser'')"
    by (simp add: prod_eq_iff)
  with r c e show ?thesis
    by blast
qed

text \<open>
  Two category blocks and two entry blocks: the code returns the second of each, the body
  cut after the first of each gives the first.
\<close>

theorem parse_body_later_header_overwrites:
  "parse_body (Some ''Changelog category:\<newline>Bug Fix\<newline>\<newline>Changelog entry:\<newline>First\<newline>\<newline>Changelog category:\<newline>Improvement\<newline>\<newline>Changelog entry:\<newline>Second'') =
     (''Improvement'', ''Second'') \<and>
   parse_body (Some ''Changelog category:\<newline>Bug Fix\<newline>\<newline>Changelog entry:\<newline>First'') =
     (''Bug Fix'', ''First'')"
  by code_simp

text \<open>
  Claim C3, as the code has it. Take a body read as a category block and, later, an entry
  block, with no category or entry block between them and any blocks before and after.
  If the lines with the two blocks exchanged are still read as these blocks, which asks
  that a blank line follows the entry block where the category block or other lines
  come after it, both bodies yield the same pair; when no category or entry block
  follows, the pair is the category line without its list markers and the entry lines
  joined by spaces.
\<close>

theorem parse_body_order_stable:
  assumes "well_formed (pre @ CategoryBlock hc gc ln # mid @ EntryBlock he ge lns # post)"
    and "well_formed (pre @ EntryBlock he ge lns # mid @ CategoryBlock hc gc ln # post)"
    and "list_all (\<lambda>x. \<not> is_category_block x \<and> \<not> is_entry_block x) mid"
    and "body_lines b1 = lines_of (pre @ CategoryBlock hc gc ln # mid @ EntryBlock he ge lns # post)"
    and "body_lines b2 = lines_of (pre @ EntryBlock he ge lns # mid @ CategoryBlock hc gc ln # post)"
  shows "parse_body b1 = parse_body b2 \<and>
         (list_all (\<lambda>x. \<not> is_category_block x \<and> \<not> is_entry_block x) post \<longrightarrow>
            parse_body b1 = (strip_markers ln, join '' '' lns))"
proof -
  obtain c e where pre: "foldl capture ([], []) pre = (c, e)"
    by (cases "foldl capture ([], []) pre")
  have 1: "parse_body b1 = foldl capture (strip_markers ln, join '' '' lns) post"
    unfolding parse_body_blocks [OF assms(1) assms(4) [symmetric]]
    by (simp add: pre foldl_capture_neither [OF assms(3)])
  have 2: "parse_body b2 = foldl capture (strip_markers ln, join '' '' lns) post"
    unfolding parse_body_blocks [OF assms(2) assms(5) [symmetric]]
    by (simp add: pre foldl_capture_neither [OF assms(3)])
  from 1 2 show ?thesis
    by (simp add: foldl_capture_neither)
qed

theorem parse_body_order_stable_witness:
  "well_formed (intro_lines @ CategoryBlock ''### Changelog category (leave one):'' False ''- Bug Fix'' #
     [OtherLine []] @ EntryBlock ''### Changelog entry:'' True [''Fixed a crash'', ''in the parser''] #
     [OtherLine []]) \<and>
   well_formed (intro_lines @ EntryBlock ''### Changelog entry:'' True [''Fixed a crash'', ''in the parser''] #
     [OtherLine []] @ CategoryBlock ''### Changelog category (leave one):'' False ''- Bug Fix'' #
     [OtherLine []]) \<and>
   list_all (\<lambda>x. \<not> is_category_block x \<and> \<not> is_entry_block x) [OtherLine []] \<and>
   body_lines (Some windows_body) =
     lines_of (intro_lines @ CategoryBlock ''### Changelog category (leave one):'' False ''- Bug Fix'' #
       [OtherLine []] @ EntryBlock ''### Changelog entry:'' True [''Fixed a crash'', ''in the parser''] #
       [OtherLine []]) \<and>
   body_lines (Some windows_body_swapped) =
     lines_of (intro_lines @ EntryBlock ''### Changelog entry:'' True [''Fixed a crash'', ''in the parser''] #
       [OtherLine []] @ CategoryBlock ''### Changelog category (leave one):'' False ''- Bug Fix'' #
       [OtherLine []]) \<and>
   parse_body (Some windows_body) = parse_body (Some windows_body_swapped) \<and>
   parse_body (Some windows_body) = (''Bug Fix'', ''Fixed a crash in the parser'')"
proof -
  let ?C = "CategoryBlock ''### Changelog category (leave one):'' False ''- Bug Fix''"
  let ?E = "EntryBlock ''### Changelog entry:'' True [''Fixed a crash'', ''in the parser'']"
  have wf1: "well_formed (intro_lines @ ?C # [OtherLine []] @ ?E # [OtherLine []])"
    by code_simp
  have wf2: "well_formed (intro_lines @ ?E # [OtherLine []] @ ?C # [OtherLine []])"
    by code_simp
  have mid: "list_all (\<lambda>x. \<not> is_category_block x \<and> \<not> is_entry_block x) [OtherLine []]"
    by simp
  have l1: "body_lines (Some windows_body) =
      lines_of (intro_lines @ ?C # [OtherLine []] @ ?E # [OtherLine []])"
    by code_simp
  have l2: "body_lines (Some windows_body_swapped) =
      lines_of (intro_lines @ ?E # [OtherLine []] @ ?C # [OtherLine []])"
    by code_simp
  have v: "strip_markers ''- Bug Fix'' = ''Bug Fix''"
    "join '' '' [''Fixed a crash'', ''in the parser''] = ''Fixed a crash in the parser''"
    by code_simp+
  note inst = parse_body_order_stable [OF wf1 wf2 mid l1 l2]
  from inst have "parse_body (Some windows_body) = parse_body (Some windows_body_swapped)"
    by (rule conjunct1)
  moreover from inst mid have "parse_body (Some windows_body) = (''Bug Fix'', ''Fixed a crash in the parser'')"
    unfolding v by blast
  ultimately show ?thesis
    using wf1 wf2 mid l1 l2 by blast
qed

text \<open>
  Without a blank line between the blocks the entry block, when it comes first, swallows
  the category header and its line.
\<close>

theorem parse_body_adjacent_blocks_differ:
  "parse_body (Some ''Changelog category:\<newline>Bug Fix\<newline>Changelog entry:\<newline>Fixed a crash'') =
     (''Bug Fix'', ''Fixed a crash'') \<and>
   parse_body (Some ''Changelog entry:\<newline>Fixed a crash\<newline>Changelog category:\<newline>Bug Fix'') =
     ([], ''Fixed a crash Changelog category: Bug Fix'')"
  by code_simp

end
